theory Spec2Isabelle
  imports Complex_Main "HOL-Library.Log_Nat" "HOL-Library.Sublist" "HOL-Library.AList"
begin

section \<open>Football match importance API: the model of app.py\<close>

text \<open>
  The service has one computed endpoint, \<^verbatim>\<open>GET /matchinfo\<close>. Its handler
  \<^verbatim>\<open>get_match_info\<close> calls \<^verbatim>\<open>get_standings\<close> (one outbound HTTP request, then
  arithmetic on the parsed body), \<^verbatim>\<open>find_team\<close> twice and \<^verbatim>\<open>match_importance\<close>.
  Every function below is a translation of the Python function of the same name. What
  Python does besides returning a value is explicit here:
  \<^item> an exception is a value of type \<open>exn\<close>, and a function that can raise returns
    \<open>exn + 'a\<close> with \<open>Inl\<close> for the exception;
  \<^item> the outbound request is a parameter \<open>http_get\<close>, a function from the URL to what
    \<^verbatim>\<open>requests.get\<close> does for it;
  \<^item> the body parsed by \<^verbatim>\<open>response.json()\<close> is a value of type \<open>pyval\<close>, so that a body
    of any shape can be given to the code;
  \<^item> a Python \<^verbatim>\<open>float\<close> is the rational number it denotes, and every float operation
    rounds its exact result to the nearest binary64 value, ties to even (\<open>fl\<close>);
  \<^item> a Python \<^verbatim>\<open>dict\<close> is an association list with distinct keys in insertion order.
\<close>

subsection \<open>Python values and exceptions\<close>

text \<open>
  What \<^verbatim>\<open>json.loads\<close> can return, numbers being integers as in the upstream schema
  (\<^verbatim>\<open>position\<close>, \<^verbatim>\<open>playedGames\<close> and \<^verbatim>\<open>points\<close> are integers there); a body with a
  non-integer number is outside this model.
\<close>

datatype pyval =
    PNone
  | PBool bool
  | PInt int
  | PStr string
  | PList "pyval list"
  | PDict "(string \<times> pyval) list"

text \<open>
  The exceptions the code can meet. \<open>ApiError msg\<close> is the \<^verbatim>\<open>Exception\<close> that
  \<^verbatim>\<open>get_standings\<close> raises itself, with its message; \<open>RequestException\<close> is any failure
  of \<^verbatim>\<open>requests.get\<close>; the others are raised by the Python runtime.
\<close>

datatype exn =
    RequestException
  | ApiError string
  | JSONDecodeError
  | KeyError
  | IndexError
  | TypeError
  | AttributeError
  | ZeroDivisionError
  | OverflowError

text \<open>\<^verbatim>\<open>obj[key]\<close> for a string key: only a dict can be indexed by a string.\<close>

fun getitem_str :: "pyval \<Rightarrow> string \<Rightarrow> exn + pyval" where
  "getitem_str (PDict kvs) k = (case map_of kvs k of None \<Rightarrow> Inl KeyError | Some v \<Rightarrow> Inr v)"
| "getitem_str PNone k = Inl TypeError"
| "getitem_str (PBool b) k = Inl TypeError"
| "getitem_str (PInt i) k = Inl TypeError"
| "getitem_str (PStr s) k = Inl TypeError"
| "getitem_str (PList xs) k = Inl TypeError"

text \<open>
  \<^verbatim>\<open>obj[0]\<close>: the first element of a list or string; a dict parsed from JSON has string
  keys only, so the key \<^verbatim>\<open>0\<close> is missing.
\<close>

fun getitem_0 :: "pyval \<Rightarrow> exn + pyval" where
  "getitem_0 (PList []) = Inl IndexError"
| "getitem_0 (PList (x # xs)) = Inr x"
| "getitem_0 (PStr []) = Inl IndexError"
| "getitem_0 (PStr (c # cs)) = Inr (PStr [c])"
| "getitem_0 (PDict kvs) = Inl KeyError"
| "getitem_0 PNone = Inl TypeError"
| "getitem_0 (PBool b) = Inl TypeError"
| "getitem_0 (PInt i) = Inl TypeError"

text \<open>
  The elements that \<^verbatim>\<open>for team in obj\<close> visits, whose number is \<^verbatim>\<open>len(obj)\<close>: the
  elements of a list, the characters of a string, the keys of a dict.
\<close>

fun iter_items :: "pyval \<Rightarrow> exn + pyval list" where
  "iter_items (PList xs) = Inr xs"
| "iter_items (PStr s) = Inr (map (\<lambda>c. PStr [c]) s)"
| "iter_items (PDict kvs) = Inr (map (\<lambda>kv. PStr (fst kv)) kvs)"
| "iter_items PNone = Inl TypeError"
| "iter_items (PBool b) = Inl TypeError"
| "iter_items (PInt i) = Inl TypeError"

text \<open>
  A value used as a number, in \<^verbatim>\<open>0 + v\<close> and in \<^verbatim>\<open>v <= top_zone\<close>: an \<^verbatim>\<open>int\<close>, or a
  \<^verbatim>\<open>bool\<close> (a subclass of \<^verbatim>\<open>int\<close>); anything else is a TypeError.
\<close>

fun as_int :: "pyval \<Rightarrow> exn + int" where
  "as_int (PInt i) = Inr i"
| "as_int (PBool b) = Inr (if b then 1 else 0)"
| "as_int PNone = Inl TypeError"
| "as_int (PStr s) = Inl TypeError"
| "as_int (PList xs) = Inl TypeError"
| "as_int (PDict kvs) = Inl TypeError"

subsection \<open>Strings\<close>

text \<open>
  A Python \<^verbatim>\<open>str\<close> is modelled by its UTF-8 encoding, a list of bytes (\<open>char\<close>).
  Equality, emptiness, concatenation and the substring test \<^verbatim>\<open>in\<close> give the same
  answer on the code points and on the encoding, and these are the only operations the
  code applies to a team name or a query. Where the body has a string in the place of a
  list (\<^verbatim>\<open>obj[0]\<close>, \<^verbatim>\<open>for team in obj\<close>), the code indexes each character with a string
  key next, which raises TypeError whatever the character is, so that the number of
  characters of a string reaches no result.

  \<^verbatim>\<open>str.lower()\<close> lowers every cased character of every script, by the Unicode tables of
  the Python runtime. The tables are not copied here. A \<open>lowering\<close> is any function on
  strings that does on an ASCII string what \<^verbatim>\<open>str.lower()\<close> does there: the letters A to Z
  move to a to z and every other character stays. Nothing is fixed outside ASCII, so
  \<^verbatim>\<open>str.lower()\<close> is one of the lowerings. Every function that lowers a string takes the
  lowering as its parameter \<open>L\<close>, and what is proved for every \<open>L\<close> holds for the code.
\<close>

definition is_ascii :: "char \<Rightarrow> bool" where
  "is_ascii c = ((of_char c :: nat) < 128)"

definition ascii_lower_char :: "char \<Rightarrow> char" where
  "ascii_lower_char c =
     (let n = (of_char c :: nat) in if 65 \<le> n \<and> n \<le> 90 then char_of (n + 32) else c)"

typedef lowering =
  "{f :: string \<Rightarrow> string.
      \<forall>s. list_all is_ascii s \<longrightarrow> f s = map ascii_lower_char s}"
  by (rule exI [of _ "map ascii_lower_char"]) simp

definition lower :: "lowering \<Rightarrow> string \<Rightarrow> string" where
  "lower L s = Rep_lowering L s"

text \<open>
  The lowering that moves the letters A to Z and nothing else. It is \<^verbatim>\<open>str.lower()\<close> on
  every ASCII string, and serves to run the model on inputs whose names are ASCII.
\<close>

definition ascii_lowering :: lowering where
  "ascii_lowering = Abs_lowering (map ascii_lower_char)"

text \<open>\<^verbatim>\<open>v.lower()\<close> on a parsed value: only a string has the method.\<close>

fun lower_method :: "lowering \<Rightarrow> pyval \<Rightarrow> exn + string" where
  "lower_method L (PStr s) = Inr (lower L s)"
| "lower_method L PNone = Inl AttributeError"
| "lower_method L (PBool b) = Inl AttributeError"
| "lower_method L (PInt i) = Inl AttributeError"
| "lower_method L (PList xs) = Inl AttributeError"
| "lower_method L (PDict kvs) = Inl AttributeError"

text \<open>\<^verbatim>\<open>name in t\<close> on strings: \<open>name\<close> starts at some position of \<open>t\<close>.\<close>

fun str_in :: "string \<Rightarrow> string \<Rightarrow> bool" where
  "str_in name [] = (name = [])"
| "str_in name (c # t) = (prefix name (c # t) \<or> str_in name t)"

text \<open>Decimal digits of a number, as \<^verbatim>\<open>str(n)\<close> and the f-strings print them.\<close>

definition digit :: "nat \<Rightarrow> char" where
  "digit d = char_of (48 + d)"

fun show_nat :: "nat \<Rightarrow> string" where
  "show_nat n = (if n < 10 then [digit n] else show_nat (n div 10) @ [digit (n mod 10)])"

definition show_int :: "int \<Rightarrow> string" where
  "show_int i = (if i < 0 then CHR ''-'' # show_nat (nat (- i)) else show_nat (nat i))"

subsection \<open>Floats\<close>

text \<open>
  A finite binary64 value is \<open>m * 2 ^ e\<close> with \<open>\<bar>m\<bar> < 2 ^ 53\<close> and \<open>- 1074 \<le> e\<close>. Python
  rounds the exact result of an operation to the nearest such value, ties to the even
  \<open>m\<close>. \<open>round_half_even\<close> is also what \<^verbatim>\<open>round(x)\<close> returns for a float \<open>x\<close>.
\<close>

definition round_half_even :: "rat \<Rightarrow> int" where
  "round_half_even x =
     (let f = \<lfloor>x\<rfloor>; d = x - of_int f in
      if d < 1 / 2 then f
      else if 1 / 2 < d then f + 1
      else if even f then f else f + 1)"

text \<open>The integer \<open>k\<close> with \<open>2 ^ k \<le> \<bar>x\<bar> < 2 ^ (k + 1)\<close>, for \<open>x \<noteq> 0\<close>.\<close>

definition ilog2 :: "rat \<Rightarrow> int" where
  "ilog2 x =
     (if 1 \<le> \<bar>x\<bar> then bitlen \<lfloor>\<bar>x\<bar>\<rfloor> - 1
      else - bitlen (\<lceil>1 / \<bar>x\<bar>\<rceil> - 1))"

text \<open>
  The exponent of the last bit of the 53-bit significand of \<open>x\<close>; below \<open>2 ^ (- 1022)\<close>
  (subnormal values) it stays at \<open>- 1074\<close>.
\<close>

definition ulp_exp :: "rat \<Rightarrow> int" where
  "ulp_exp x = max (ilog2 x - 52) (- 1074)"

definition fl :: "rat \<Rightarrow> rat" where
  "fl x =
     (if x = 0 then 0
      else of_int (round_half_even (x / 2 powi ulp_exp x)) * 2 powi ulp_exp x)"

text \<open>The values of type \<^verbatim>\<open>float\<close>, infinities and NaN apart.\<close>

definition is_double :: "rat \<Rightarrow> bool" where
  "is_double x = (fl x = x \<and> \<bar>x\<bar> < 2 ^ 1024)"

text \<open>
  \<^verbatim>\<open>float(n)\<close> for an \<^verbatim>\<open>int\<close>, as the mixed operations \<^verbatim>\<open>n * 0.2\<close> and \<^verbatim>\<open>x / n\<close>
  apply it to their integer operand: correctly rounded, OverflowError when the rounded
  value does not fit.
\<close>

definition int_to_float :: "int \<Rightarrow> exn + rat" where
  "int_to_float n =
     (if 2 ^ 1024 \<le> \<bar>fl (of_int n)\<bar> then Inl OverflowError else Inr (fl (of_int n)))"

text \<open>\<^verbatim>\<open>a / b\<close> for two \<^verbatim>\<open>int\<close>s: the correctly rounded quotient.\<close>

definition int_truediv :: "int \<Rightarrow> int \<Rightarrow> exn + rat" where
  "int_truediv a b =
     (if b = 0 then Inl ZeroDivisionError
      else if 2 ^ 1024 \<le> \<bar>fl (of_int a / of_int b)\<bar> then Inl OverflowError
      else Inr (fl (of_int a / of_int b)))"

text \<open>
  \<^verbatim>\<open>x / n\<close> for a float \<open>x\<close> and an \<^verbatim>\<open>int\<close> \<open>n\<close>. The divisor is converted first. A
  non-zero converted integer is at least 1 in absolute value, so the quotient of a
  finite \<open>x\<close> is finite and the division itself cannot overflow.
\<close>

definition float_truediv_int :: "rat \<Rightarrow> int \<Rightarrow> exn + rat" where
  "float_truediv_int x n =
     (case int_to_float n of
        Inl e \<Rightarrow> Inl e
      | Inr d \<Rightarrow> if d = 0 then Inl ZeroDivisionError else Inr (fl (x / d)))"

text \<open>
  \<^verbatim>\<open>n * c\<close> for an \<^verbatim>\<open>int\<close> \<open>n\<close> and a float \<open>c\<close> with \<open>\<bar>c\<bar> \<le> 1\<close>, which keeps the
  product finite.
\<close>

definition int_mul_float :: "int \<Rightarrow> rat \<Rightarrow> exn + rat" where
  "int_mul_float n c =
     (case int_to_float n of
        Inl e \<Rightarrow> Inl e
      | Inr d \<Rightarrow> Inr (fl (d * c)))"

text \<open>The float literals of the source: the binary64 values nearest to the decimals.\<close>

definition float_0_33 :: rat where
  "float_0_33 = fl (33 / 100)"

definition float_0_66 :: rat where
  "float_0_66 = fl (66 / 100)"

definition float_0_2 :: rat where
  "float_0_2 = fl (2 / 10)"

text \<open>
  \<^verbatim>\<open>f"{v:.1f}"\<close> for a finite float \<open>v\<close>: the decimal with one digit after the point that
  is nearest to the exact value of \<open>v\<close>, ties to the even digit, with the sign of \<open>v\<close>.
\<close>

definition format_1f :: "rat \<Rightarrow> string" where
  "format_1f v =
     (let q = nat (round_half_even (\<bar>v\<bar> * 10)) in
      (if v < 0 then ''-'' else '''') @ show_nat (q div 10) @ ''.'' @ [digit (q mod 10)])"

text \<open>
  \<^verbatim>\<open>f"{progress*100:.1f}%"\<close>: the product is a float multiplication, which overflows to
  an infinity that prints as \<^verbatim>\<open>inf\<close>.
\<close>

definition format_percent :: "rat \<Rightarrow> string" where
  "format_percent progress =
     (let v = fl (progress * 100) in
      if 2 ^ 1024 \<le> v then ''inf%''
      else if v \<le> - (2 ^ 1024) then ''-inf%''
      else format_1f v @ ''%'')"

subsection \<open>The standings fetcher\<close>

text \<open>
  What \<^verbatim>\<open>requests.get(url, headers=headers)\<close> does: it raises, or it returns a
  response with the attributes \<^verbatim>\<open>ok\<close>, \<^verbatim>\<open>status_code\<close> and \<^verbatim>\<open>text\<close> and the method
  \<^verbatim>\<open>json()\<close>, which returns the parsed body or raises (\<open>None\<close> here).
\<close>

datatype upstream =
    RequestFailed
  | Response (ok: bool) (status_code: int) (body_text: string) (body_json: "pyval option")

definition BASE_URL :: string where
  "BASE_URL = ''https://api.football-data.org/v4''"

text \<open>\<^verbatim>\<open>f"{BASE_URL}/competitions/{competition_code}/standings"\<close>, the URL of line 35.\<close>

definition standings_url :: "string \<Rightarrow> string" where
  "standings_url competition_code =
     BASE_URL @ ''/competitions/'' @ competition_code @ ''/standings''"

text \<open>One value of the table: \<^verbatim>\<open>{"position": .., "played": .., "points": ..}\<close>.\<close>

record entry =
  position :: pyval
  played :: pyval
  points :: pyval

type_synonym table = "(string \<times> entry) list"

text \<open>
  \<^verbatim>\<open>team["playedGames"]\<close> as a summand of \<^verbatim>\<open>sum\<close>: the value is read, then added to
  an \<^verbatim>\<open>int\<close>.
\<close>

definition played_games :: "pyval \<Rightarrow> exn + int" where
  "played_games team =
     (case getitem_str team ''playedGames'' of
        Inl e \<Rightarrow> Inl e
      | Inr v \<Rightarrow> as_int v)"

text \<open>
  \<^verbatim>\<open>sum(team["playedGames"] for team in standings)\<close>: the rows are visited in order,
  each value is read and added to the running sum, which starts at 0.
\<close>

fun sum_played :: "int \<Rightarrow> pyval list \<Rightarrow> exn + int" where
  "sum_played acc [] = Inr acc"
| "sum_played acc (team # rest) =
     (case played_games team of
        Inl e \<Rightarrow> Inl e
      | Inr i \<Rightarrow> sum_played (acc + i) rest)"

text \<open>
  Lines 45 to 48 of \<^verbatim>\<open>get_standings\<close>, from the sum of the played games and the number
  of rows to the season progress.
\<close>

definition season_progress :: "int \<Rightarrow> int \<Rightarrow> exn + rat" where
  "season_progress played_sum total_teams =
     (case int_truediv played_sum total_teams of
        Inl e \<Rightarrow> Inl e
      | Inr avg_played \<Rightarrow>
          (let total_games_per_team = (total_teams - 1) * 2
           in float_truediv_int avg_played total_games_per_team))"

text \<open>
  One step of the dict comprehension of lines 50 to 57: the key of a row, then its value.
\<close>

definition row_entry :: "lowering \<Rightarrow> pyval \<Rightarrow> exn + (string \<times> entry)" where
  "row_entry L team =
     (case getitem_str team ''team'' of
        Inl e \<Rightarrow> Inl e
      | Inr t \<Rightarrow>
     (case getitem_str t ''name'' of
        Inl e \<Rightarrow> Inl e
      | Inr nm \<Rightarrow>
     (case lower_method L nm of
        Inl e \<Rightarrow> Inl e
      | Inr k \<Rightarrow>
     (case getitem_str team ''position'' of
        Inl e \<Rightarrow> Inl e
      | Inr pos \<Rightarrow>
     (case getitem_str team ''playedGames'' of
        Inl e \<Rightarrow> Inl e
      | Inr pl \<Rightarrow>
     (case getitem_str team ''points'' of
        Inl e \<Rightarrow> Inl e
      | Inr pts \<Rightarrow> Inr (k, \<lparr>position = pos, played = pl, points = pts\<rparr>)))))))"

text \<open>
  The comprehension over all rows, in order: a key met again keeps its place in the
  dict and takes the new value, which is what \<open>AList.update\<close> does.
\<close>

fun build_table :: "lowering \<Rightarrow> pyval list \<Rightarrow> table \<Rightarrow> exn + table" where
  "build_table L [] tbl = Inr tbl"
| "build_table L (team # rest) tbl =
     (case row_entry L team of
        Inl e \<Rightarrow> Inl e
      | Inr ke \<Rightarrow> build_table L rest (AList.update (fst ke) (snd ke) tbl))"

text \<open>
  \<^verbatim>\<open>data["standings"][0]["table"]\<close>, the value the source names \<^verbatim>\<open>standings\<close>.
\<close>

definition standings_rows :: "pyval \<Rightarrow> exn + pyval" where
  "standings_rows data =
     (case getitem_str data ''standings'' of
        Inl e \<Rightarrow> Inl e
      | Inr groups \<Rightarrow>
          (case getitem_0 groups of
             Inl e \<Rightarrow> Inl e
           | Inr g \<Rightarrow> getitem_str g ''table''))"

definition get_standings ::
  "lowering \<Rightarrow> (string \<Rightarrow> upstream) \<Rightarrow> string \<Rightarrow> exn + (table \<times> int \<times> rat)" where
  "get_standings L http_get competition_code =
     (case http_get (standings_url competition_code) of
        RequestFailed \<Rightarrow> Inl RequestException
      | Response ok_flag code txt parsed \<Rightarrow>
          if \<not> ok_flag
          then Inl (ApiError (''API request failed: '' @ show_int code @ '' - '' @ txt))
          else
     (case parsed of
        None \<Rightarrow> Inl JSONDecodeError
      | Some data \<Rightarrow>
     (case standings_rows data of
        Inl e \<Rightarrow> Inl e
      | Inr standings \<Rightarrow>
     (case iter_items standings of
        Inl e \<Rightarrow> Inl e
      | Inr rows \<Rightarrow>
          (let total_teams = int (length rows) in
     (case sum_played 0 rows of
        Inl e \<Rightarrow> Inl e
      | Inr played_sum \<Rightarrow>
     (case season_progress played_sum total_teams of
        Inl e \<Rightarrow> Inl e
      | Inr progress \<Rightarrow>
     (case build_table L rows [] of
        Inl e \<Rightarrow> Inl e
      | Inr tbl \<Rightarrow> Inr (tbl, total_teams, progress)))))))))"

subsection \<open>The importance classifier\<close>

text \<open>Lines 64 to 69 of \<^verbatim>\<open>match_importance\<close>: the stage of the season.\<close>

definition season_stage :: "rat \<Rightarrow> string" where
  "season_stage progress =
     (if progress < float_0_33 then ''early season''
      else if progress < float_0_66 then ''mid-season''
      else ''end of the season'')"

text \<open>\<^verbatim>\<open>max(3, round(total_teams * 0.2))\<close>, the value of both \<^verbatim>\<open>top_zone\<close> and \<^verbatim>\<open>bottom_zone\<close>.\<close>

definition zone :: "int \<Rightarrow> exn + int" where
  "zone total_teams =
     (case int_mul_float total_teams float_0_2 of
        Inl e \<Rightarrow> Inl e
      | Inr x \<Rightarrow> Inr (max 3 (round_half_even x)))"

text \<open>
  The positions come from the parsed body and are compared with integers and floats: a
  position that is no number makes the first comparison that reads it raise TypeError,
  and every path through the function compares both positions. \<^verbatim>\<open>total_teams / 2\<close> is
  an integer division with a float result; a comparison of an \<^verbatim>\<open>int\<close> with a float is
  exact. The source evaluates \<^verbatim>\<open>total_teams / 2\<close> inside the last two checks, where
  it cannot raise any more: the zone size has been computed, so \<open>total_teams\<close> has a
  float.
\<close>

definition match_importance :: "pyval \<Rightarrow> pyval \<Rightarrow> int \<Rightarrow> rat \<Rightarrow> exn + string" where
  "match_importance pos1 pos2 total_teams progress =
     (let stage = season_stage progress in
     (case zone total_teams of
        Inl e \<Rightarrow> Inl e
      | Inr top_zone \<Rightarrow>
     (case zone total_teams of
        Inl e \<Rightarrow> Inl e
      | Inr bottom_zone \<Rightarrow>
     (case as_int pos1 of
        Inl e \<Rightarrow> Inl e
      | Inr p1 \<Rightarrow>
     (case as_int pos2 of
        Inl e \<Rightarrow> Inl e
      | Inr p2 \<Rightarrow>
          (let top_teams = (p1 \<le> top_zone \<and> p2 \<le> top_zone);
               bottom_teams =
                 (p1 > total_teams - bottom_zone \<and> p2 > total_teams - bottom_zone)
           in
           if top_teams then Inr ('' Top clash ('' @ stage @ '')'')
           else if bottom_teams then Inr ('' Relegation battle ('' @ stage @ '')'')
           else
     (case int_truediv total_teams 2 of
        Inl e \<Rightarrow> Inl e
      | Inr half \<Rightarrow>
           if (p1 \<le> top_zone \<and> of_int p2 > half) \<or> (p2 \<le> top_zone \<and> of_int p1 > half)
           then Inr ('' Important for top team ('' @ stage @ '')'')
           else if (p1 > total_teams - bottom_zone \<and> of_int p2 < half)
                 \<or> (p2 > total_teams - bottom_zone \<and> of_int p1 < half)
           then Inr ('' Important for bottom team ('' @ stage @ '')'')
           else Inr ('' Regular match ('' @ stage @ '')''))))))))"

subsection \<open>The team resolver\<close>

text \<open>The loop of \<^verbatim>\<open>find_team\<close> over \<^verbatim>\<open>standings.keys()\<close>, \<open>name\<close> already in lower case.\<close>

fun find_key :: "string \<Rightarrow> string list \<Rightarrow> string option" where
  "find_key name [] = None"
| "find_key name (t # ts) = (if str_in name t then Some t else find_key name ts)"

definition find_team :: "lowering \<Rightarrow> string \<Rightarrow> table \<Rightarrow> string option" where
  "find_team L name standings = find_key (lower L name) (map fst standings)"

subsection \<open>The request handler\<close>

text \<open>
  The framework calls the handler with the three query parameters \<^verbatim>\<open>league\<close>,
  \<^verbatim>\<open>team1\<close> and \<^verbatim>\<open>team2\<close>, all required. The handler gives back a \<^verbatim>\<open>JSONResponse\<close>
  with its status code and content, or the dict of a match, which the framework sends
  with status 200.
\<close>

datatype content =
    ErrorContent exn
  | NotFoundContent string "string list"

record match_result =
  league :: string
  team1_name :: string
  team1_position :: pyval
  team1_points :: pyval
  team2_name :: string
  team2_position :: pyval
  team2_points :: pyval
  importance :: string
  season_progress_text :: string

datatype reply =
    JSONResponse int content
  | MatchDict match_result

text \<open>\<^verbatim>\<open>not t\<close> for the result of \<^verbatim>\<open>find_team\<close>: true for \<^verbatim>\<open>None\<close> and for the empty string.\<close>

fun falsy :: "string option \<Rightarrow> bool" where
  "falsy None = True"
| "falsy (Some t) = (t = [])"

text \<open>\<^verbatim>\<open>standings[t]\<close> for the result of \<^verbatim>\<open>find_team\<close>.\<close>

fun getitem_table :: "table \<Rightarrow> string option \<Rightarrow> exn + entry" where
  "getitem_table standings None = Inl KeyError"
| "getitem_table standings (Some t) =
     (case map_of standings t of None \<Rightarrow> Inl KeyError | Some e \<Rightarrow> Inr e)"

definition get_match_info ::
  "lowering \<Rightarrow> (string \<Rightarrow> upstream) \<Rightarrow> string \<Rightarrow> string \<Rightarrow> string \<Rightarrow> exn + reply" where
  "get_match_info L http_get league_code team1 team2 =
     (case get_standings L http_get league_code of
        Inl e \<Rightarrow> Inr (JSONResponse 400 (ErrorContent e))
      | Inr (standings, total_teams, progress) \<Rightarrow>
          (let t1 = find_team L team1 standings;
               t2 = find_team L team2 standings
           in
           if falsy t1 \<or> falsy t2
           then Inr (JSONResponse 404
                  (NotFoundContent ''One or both teams were not found.'' (map fst standings)))
           else
     (case getitem_table standings t1 of
        Inl e \<Rightarrow> Inl e
      | Inr e1 \<Rightarrow>
     (case getitem_table standings t2 of
        Inl e \<Rightarrow> Inl e
      | Inr e2 \<Rightarrow>
     (case match_importance (position e1) (position e2) total_teams progress of
        Inl e \<Rightarrow> Inl e
      | Inr imp \<Rightarrow>
          Inr (MatchDict
            \<lparr>league = league_code,
             team1_name = the t1, team1_position = position e1, team1_points = points e1,
             team2_name = the t2, team2_position = position e2, team2_points = points e2,
             importance = imp,
             season_progress_text = format_percent progress\<rparr>))))))"

text \<open>
  The status the client sees: the code of a \<^verbatim>\<open>JSONResponse\<close>, 200 for a returned dict,
  and 500 when the handler raises, which the framework answers itself.
\<close>

fun http_status :: "exn + reply \<Rightarrow> int" where
  "http_status (Inl e) = 500"
| "http_status (Inr (JSONResponse code c)) = code"
| "http_status (Inr (MatchDict m)) = 200"

subsection \<open>The classifier in the words of the specification\<close>

text \<open>
  The zone size of the specification in exact arithmetic,
  \<open>zoneSize = max(3, round(totalTeams * 0.2))\<close>. No multiple of a fifth lies halfway
  between two integers, so \<open>round\<close> is rounding to the nearest integer.
\<close>

definition zoneSize_spec :: "int \<Rightarrow> int" where
  "zoneSize_spec totalTeams = max 3 (round_half_even (of_int totalTeams * (2 / 10)))"

text \<open>
  The ordered checks of the specification, the first that holds giving the label, for a
  zone size and a value \<open>half\<close> of \<open>totalTeams / 2\<close>: both positions in the top zone; both
  in the bottom zone; exactly one in the top zone and the other in the lower half;
  exactly one in the bottom zone and the other in the upper half; none of these.
\<close>

definition label_spec :: "int \<Rightarrow> rat \<Rightarrow> int \<Rightarrow> int \<Rightarrow> int \<Rightarrow> string" where
  "label_spec zoneSize half pos1 pos2 totalTeams =
     (if pos1 \<le> zoneSize \<and> pos2 \<le> zoneSize then ''Top clash''
      else if pos1 > totalTeams - zoneSize \<and> pos2 > totalTeams - zoneSize
        then ''Relegation battle''
      else if (pos1 \<le> zoneSize \<and> pos2 > zoneSize \<and> of_int pos2 > half)
            \<or> (pos2 \<le> zoneSize \<and> pos1 > zoneSize \<and> of_int pos1 > half)
        then ''Important for top team''
      else if (pos1 > totalTeams - zoneSize \<and> pos2 \<le> totalTeams - zoneSize
                \<and> of_int pos2 < half)
            \<or> (pos2 > totalTeams - zoneSize \<and> pos1 \<le> totalTeams - zoneSize
                \<and> of_int pos1 < half)
        then ''Important for bottom team''
      else ''Regular match'')"

subsection \<open>Example upstream responses\<close>

text \<open>
  A row of the upstream table, a body of the expected shape
  \<^verbatim>\<open>{"standings": [{"table": [...]}]}\<close> around the rows, and an upstream that
  answers every request with status 200 and a given parsed body, and one that answers
  with an error status. They are the inputs at which theorems are evaluated.
\<close>

definition team_row :: "string \<Rightarrow> int \<Rightarrow> int \<Rightarrow> int \<Rightarrow> pyval" where
  "team_row nm pos pl pts =
     PDict [(''position'', PInt pos), (''team'', PDict [(''name'', PStr nm)]),
            (''playedGames'', PInt pl), (''points'', PInt pts)]"

definition table_body :: "pyval list \<Rightarrow> pyval" where
  "table_body rows = PDict [(''standings'', PList [PDict [(''table'', PList rows)]])]"

definition answering :: "pyval \<Rightarrow> string \<Rightarrow> upstream" where
  "answering data url = Response True 200 [] (Some data)"

definition refusing :: "int \<Rightarrow> string \<Rightarrow> string \<Rightarrow> upstream" where
  "refusing status raw url = Response False status raw None"

section \<open>Properties\<close>

subsection \<open>Values\<close>

lemma as_int_error: "as_int v = Inl e \<Longrightarrow> e = TypeError"
  by (cases v) auto

subsection \<open>Lowerings\<close>

lemma lower_ascii:
  assumes "list_all is_ascii s"
  shows "lower L s = map ascii_lower_char s"
  using Rep_lowering [of L] assms by (simp add: lower_def)


lemma lower_Nil [simp]: "lower L [] = []"
  using lower_ascii [of "[]" L] by simp

lemma ascii_examples:
  "list_all is_ascii ''Arsenal''" "map ascii_lower_char ''Arsenal'' = ''arsenal''"
  "list_all is_ascii ''ARSENAL''" "map ascii_lower_char ''ARSENAL'' = ''arsenal''"
  "list_all is_ascii ''arsenal''" "map ascii_lower_char ''arsenal'' = ''arsenal''"
  "list_all is_ascii ''Chelsea''" "map ascii_lower_char ''Chelsea'' = ''chelsea''"
  "list_all is_ascii ''chelsea''" "map ascii_lower_char ''chelsea'' = ''chelsea''"
  "list_all is_ascii ''zzz''" "map ascii_lower_char ''zzz'' = ''zzz''"
  by code_simp+

lemma lower_examples:
  "lower L ''Arsenal'' = ''arsenal''"
  "lower L ''ARSENAL'' = ''arsenal''"
  "lower L ''arsenal'' = ''arsenal''"
  "lower L ''Chelsea'' = ''chelsea''"
  "lower L ''chelsea'' = ''chelsea''"
  "lower L ''zzz'' = ''zzz''"
  "lower L [] = []"
  by (simp_all only: lower_ascii ascii_examples lower_Nil)

subsection \<open>The example responses\<close>

lemma played_games_team_row: "played_games (team_row nm pos pl pts) = Inr pl"
  by (simp add: played_games_def team_row_def)

lemma row_entry_team_row:
  "row_entry L (team_row nm pos pl pts)
   = Inr (lower L nm, \<lparr>position = PInt pos, played = PInt pl, points = PInt pts\<rparr>)"
  by (simp add: row_entry_def team_row_def)

lemma standings_rows_table_body: "standings_rows (table_body rows) = Inr (PList rows)"
  by (simp add: standings_rows_def table_body_def)

lemma get_standings_answering:
  "get_standings L (answering (table_body rows)) lg =
     (case sum_played 0 rows of
        Inl e \<Rightarrow> Inl e
      | Inr s \<Rightarrow>
     (case season_progress s (int (length rows)) of
        Inl e \<Rightarrow> Inl e
      | Inr p \<Rightarrow>
     (case build_table L rows [] of
        Inl e \<Rightarrow> Inl e
      | Inr tbl \<Rightarrow> Inr (tbl, int (length rows), p))))"
  by (simp add: get_standings_def answering_def standings_rows_table_body Let_def)

lemma season_progress_6_2: "season_progress 6 2 = Inr (3 / 2)"
  by code_simp

lemma get_standings_two_teams:
  "get_standings L
     (answering (table_body [team_row ''Arsenal'' 1 3 9, team_row ''Chelsea'' 2 3 4])) lg
   = Inr ([(''arsenal'', \<lparr>position = PInt 1, played = PInt 3, points = PInt 9\<rparr>),
           (''chelsea'', \<lparr>position = PInt 2, played = PInt 3, points = PInt 4\<rparr>)], 2, 3 / 2)"
  by (simp add: get_standings_answering played_games_team_row row_entry_team_row
      season_progress_6_2 lower_examples)

lemma get_standings_empty_name:
  "get_standings L
     (answering (table_body [team_row [] 1 3 9, team_row ''Chelsea'' 2 3 4])) lg
   = Inr ([([], \<lparr>position = PInt 1, played = PInt 3, points = PInt 9\<rparr>),
           (''chelsea'', \<lparr>position = PInt 2, played = PInt 3, points = PInt 4\<rparr>)], 2, 3 / 2)"
  by (simp add: get_standings_answering played_games_team_row row_entry_team_row
      season_progress_6_2 lower_examples)

lemma find_team_two_teams:
  "find_team L ''Arsenal''
     [(''arsenal'', \<lparr>position = PInt 1, played = PInt 3, points = PInt 9\<rparr>),
      (''chelsea'', \<lparr>position = PInt 2, played = PInt 3, points = PInt 4\<rparr>)]
   = Some ''arsenal''"
  "find_team L ''ARSENAL''
     [(''arsenal'', \<lparr>position = PInt 1, played = PInt 3, points = PInt 9\<rparr>),
      (''chelsea'', \<lparr>position = PInt 2, played = PInt 3, points = PInt 4\<rparr>)]
   = Some ''arsenal''"
  "find_team L ''chelsea''
     [(''arsenal'', \<lparr>position = PInt 1, played = PInt 3, points = PInt 9\<rparr>),
      (''chelsea'', \<lparr>position = PInt 2, played = PInt 3, points = PInt 4\<rparr>)]
   = Some ''chelsea''"
  "find_team L ''zzz''
     [(''arsenal'', \<lparr>position = PInt 1, played = PInt 3, points = PInt 9\<rparr>),
      (''chelsea'', \<lparr>position = PInt 2, played = PInt 3, points = PInt 4\<rparr>)]
   = None"
  "find_team L []
     [(''arsenal'', \<lparr>position = PInt 1, played = PInt 3, points = PInt 9\<rparr>),
      (''chelsea'', \<lparr>position = PInt 2, played = PInt 3, points = PInt 4\<rparr>)]
   = Some ''arsenal''"
  by (simp_all add: find_team_def lower_examples)

lemma find_team_empty_name:
  "find_team L []
     [([], \<lparr>position = PInt 1, played = PInt 3, points = PInt 9\<rparr>),
      (''chelsea'', \<lparr>position = PInt 2, played = PInt 3, points = PInt 4\<rparr>)]
   = Some []"
  by (simp add: find_team_def lower_examples)

subsection \<open>Rounding to the nearest integer\<close>

lemma round_half_even_cases:
  obtains "round_half_even x = \<lfloor>x\<rfloor>" "x - of_int \<lfloor>x\<rfloor> \<le> 1 / 2"
  | "round_half_even x = \<lfloor>x\<rfloor> + 1" "1 / 2 \<le> x - of_int \<lfloor>x\<rfloor>"
  unfolding round_half_even_def Let_def
  by (cases "x - of_int \<lfloor>x\<rfloor> < 1 / 2"; cases "1 / 2 < x - of_int \<lfloor>x\<rfloor>"; cases "even \<lfloor>x\<rfloor>"; simp)

lemma round_half_even_upper: "of_int (round_half_even x) \<le> x + 1 / 2"
proof -
  have fl: "of_int \<lfloor>x\<rfloor> \<le> x" "x < of_int \<lfloor>x\<rfloor> + 1" by linarith+
  show ?thesis
  proof (cases x rule: round_half_even_cases)
    case 1
    have "of_int (round_half_even x) = (of_int \<lfloor>x\<rfloor> :: rat)" using 1(1) by simp
    with fl 1(2) show ?thesis by linarith
  next
    case 2
    have "of_int (round_half_even x) = (of_int \<lfloor>x\<rfloor> :: rat) + 1" using 2(1) by simp
    with fl 2(2) show ?thesis by linarith
  qed
qed

lemma round_half_even_lower: "x - 1 / 2 \<le> of_int (round_half_even x)"
proof -
  have fl: "of_int \<lfloor>x\<rfloor> \<le> x" "x < of_int \<lfloor>x\<rfloor> + 1" by linarith+
  show ?thesis
  proof (cases x rule: round_half_even_cases)
    case 1
    have "of_int (round_half_even x) = (of_int \<lfloor>x\<rfloor> :: rat)" using 1(1) by simp
    with fl 1(2) show ?thesis by linarith
  next
    case 2
    have "of_int (round_half_even x) = (of_int \<lfloor>x\<rfloor> :: rat) + 1" using 2(1) by simp
    with fl 2(2) show ?thesis by linarith
  qed
qed

lemma round_half_even_of_int [simp]: "round_half_even (of_int n) = n"
  unfolding round_half_even_def Let_def by simp

lemma round_half_even_mono:
  assumes "x \<le> y"
  shows "round_half_even x \<le> round_half_even y"
proof (rule ccontr)
  assume neg: "\<not> round_half_even x \<le> round_half_even y"
  then have "round_half_even y + 1 \<le> round_half_even x" by simp
  then have "(of_int (round_half_even y + 1) :: rat) \<le> of_int (round_half_even x)"
    by (simp only: of_int_le_iff)
  then have "(of_int (round_half_even y) :: rat) + 1 \<le> of_int (round_half_even x)"
    by simp
  moreover note round_half_even_upper [of x] round_half_even_lower [of y] assms
  ultimately have "x = y" by linarith
  with neg show False by simp
qed

lemma ilog2_lower:
  assumes "x \<noteq> 0"
  shows "2 powi ilog2 x \<le> \<bar>x\<bar>"
proof (cases "1 \<le> \<bar>x\<bar>")
  case True
  define n where "n = \<lfloor>\<bar>x\<bar>\<rfloor>"
  have n: "1 \<le> n" "of_int n \<le> \<bar>x\<bar>" using True by (simp_all add: n_def le_floor_iff)
  then have pos: "0 < n" by simp
  have b: "1 \<le> bitlen n" using pos bitlen_eq_zero_iff [of n] bitlen_nonneg [of n] by linarith
  from bitlen_bounds [OF pos] have "2 ^ nat (bitlen n - 1) \<le> n" by simp
  then have "(of_int (2 ^ nat (bitlen n - 1)) :: rat) \<le> of_int n" by (simp only: of_int_le_iff)
  then have A: "(2 :: rat) ^ nat (bitlen n - 1) \<le> of_int n" by simp
  have "ilog2 x = bitlen n - 1" using True by (simp add: ilog2_def n_def)
  moreover have "(2 :: rat) powi (bitlen n - 1) = 2 ^ nat (bitlen n - 1)"
    using b by (simp add: power_int_nonneg_exp)
  ultimately have "(2 :: rat) powi ilog2 x = 2 ^ nat (bitlen n - 1)" by simp
  with A n(2) show ?thesis by linarith
next
  case False
  define y where "y = 1 / \<bar>x\<bar>"
  define m where "m = \<lceil>y\<rceil> - 1"
  have xpos: "0 < \<bar>x\<bar>" using assms by simp
  have y1: "1 < y" using False xpos by (simp add: y_def)
  have y: "of_int m < y" "y \<le> of_int m + 1" unfolding m_def by linarith+
  have "0 < of_int m + (1 :: rat)" using y1 y(2) by linarith
  then have "0 < m + 1" by (metis of_int_0_less_iff of_int_1 of_int_add)
  moreover have "m \<noteq> 0" using y1 y(2) by auto
  ultimately have pos: "0 < m" by linarith
  have b: "1 \<le> bitlen m" using pos bitlen_eq_zero_iff [of m] bitlen_nonneg [of m] by linarith
  from bitlen_bounds [OF pos] have "m + 1 \<le> 2 ^ nat (bitlen m)" by simp
  then have "(of_int (m + 1) :: rat) \<le> of_int (2 ^ nat (bitlen m))" by (simp only: of_int_le_iff)
  then have "of_int m + 1 \<le> (2 :: rat) ^ nat (bitlen m)" by simp
  with y(2) have "y \<le> 2 ^ nat (bitlen m)" by linarith
  then have A: "1 / 2 ^ nat (bitlen m) \<le> 1 / y"
    using y1 by (intro divide_left_mono) auto
  have B: "1 / y = \<bar>x\<bar>" by (simp add: y_def)
  have "ilog2 x = - bitlen m" using False by (simp add: ilog2_def m_def y_def)
  moreover have "(2 :: rat) powi (- bitlen m) = 1 / 2 ^ nat (bitlen m)"
    using b by (simp only: power_int_minus_divide) (simp add: power_int_nonneg_exp)
  ultimately have "(2 :: rat) powi ilog2 x = 1 / 2 ^ nat (bitlen m)" by simp
  with A B show ?thesis by linarith
qed

lemma ilog2_upper:
  assumes "x \<noteq> 0"
  shows "\<bar>x\<bar> < 2 powi (ilog2 x + 1)"
proof (cases "1 \<le> \<bar>x\<bar>")
  case True
  define n where "n = \<lfloor>\<bar>x\<bar>\<rfloor>"
  have n: "1 \<le> n" using True by (simp add: n_def le_floor_iff)
  have n2: "\<bar>x\<bar> < of_int n + 1" unfolding n_def by linarith
  from n have pos: "0 < n" by simp
  have b: "1 \<le> bitlen n" using pos bitlen_eq_zero_iff [of n] bitlen_nonneg [of n] by linarith
  from bitlen_bounds [OF pos] have "n + 1 \<le> 2 ^ nat (bitlen n)" by simp
  then have "(of_int (n + 1) :: rat) \<le> of_int (2 ^ nat (bitlen n))" by (simp only: of_int_le_iff)
  then have A: "of_int n + 1 \<le> (2 :: rat) ^ nat (bitlen n)" by simp
  have "ilog2 x + 1 = bitlen n" using True by (simp add: ilog2_def n_def)
  moreover have "(2 :: rat) powi (bitlen n) = 2 ^ nat (bitlen n)"
    using b by (simp add: power_int_nonneg_exp)
  ultimately have "(2 :: rat) powi (ilog2 x + 1) = 2 ^ nat (bitlen n)" by simp
  with A n2 show ?thesis by linarith
next
  case False
  define y where "y = 1 / \<bar>x\<bar>"
  define m where "m = \<lceil>y\<rceil> - 1"
  have xpos: "0 < \<bar>x\<bar>" using assms by simp
  have y1: "1 < y" using False xpos by (simp add: y_def)
  have y: "of_int m < y" "y \<le> of_int m + 1" unfolding m_def by linarith+
  have "0 < of_int m + (1 :: rat)" using y1 y(2) by linarith
  then have "0 < m + 1" by (metis of_int_0_less_iff of_int_1 of_int_add)
  moreover have "m \<noteq> 0" using y1 y(2) by auto
  ultimately have pos: "0 < m" by linarith
  have b: "1 \<le> bitlen m" using pos bitlen_eq_zero_iff [of m] bitlen_nonneg [of m] by linarith
  from bitlen_bounds [OF pos] have "2 ^ nat (bitlen m - 1) \<le> m" by simp
  then have "(of_int (2 ^ nat (bitlen m - 1)) :: rat) \<le> of_int m" by (simp only: of_int_le_iff)
  then have "(2 :: rat) ^ nat (bitlen m - 1) \<le> of_int m" by simp
  with y(1) have lt: "2 ^ nat (bitlen m - 1) < y" by linarith
  have A: "1 / y < 1 / 2 ^ nat (bitlen m - 1)"
    using lt y1 by (intro divide_strict_left_mono) (auto intro!: mult_pos_pos)
  have B: "1 / y = \<bar>x\<bar>" by (simp add: y_def)
  have "ilog2 x + 1 = - (bitlen m - 1)" using False by (simp add: ilog2_def m_def y_def)
  moreover have "(2 :: rat) powi (- (bitlen m - 1)) = 1 / 2 ^ nat (bitlen m - 1)"
    using b by (simp only: power_int_minus_divide) (simp add: power_int_nonneg_exp)
  ultimately have "(2 :: rat) powi (ilog2 x + 1) = 1 / 2 ^ nat (bitlen m - 1)" by simp
  with A B show ?thesis by linarith
qed

lemma ilog2_unique:
  assumes "2 powi k \<le> \<bar>x\<bar>" and "\<bar>x\<bar> < 2 powi (k + 1)"
  shows "ilog2 x = k"
proof -
  have "0 < (2 :: rat) powi k" by simp
  with assms(1) have "0 < \<bar>x\<bar>" by linarith
  then have nz: "x \<noteq> 0" by simp
  have "(2 :: rat) powi k < 2 powi (ilog2 x + 1)"
    using assms(1) ilog2_upper [OF nz] by linarith
  then have "k < ilog2 x + 1"
    by (metis linorder_not_le power_int_increasing one_le_numeral)
  moreover have "(2 :: rat) powi ilog2 x < 2 powi (k + 1)"
    using assms(2) ilog2_lower [OF nz] by linarith
  then have "ilog2 x < k + 1"
    by (metis linorder_not_le power_int_increasing one_le_numeral)
  ultimately show ?thesis by linarith
qed

lemma ulp_exp_lower: "- 1074 \<le> ulp_exp x"
  by (simp add: ulp_exp_def)

lemma ulp_exp_upper:
  assumes "x \<noteq> 0"
  shows "\<bar>x\<bar> < 2 powi (ulp_exp x + 53)"
proof -
  have "ilog2 x + 1 \<le> ulp_exp x + 53" by (simp add: ulp_exp_def)
  then have "(2 :: rat) powi (ilog2 x + 1) \<le> 2 powi (ulp_exp x + 53)"
    by (intro power_int_increasing) auto
  with ilog2_upper [OF assms] show ?thesis by linarith
qed

lemma ulp_exp_normal:
  assumes "x \<noteq> 0" and "- 1074 < ulp_exp x"
  shows "2 powi (ulp_exp x + 52) \<le> \<bar>x\<bar>"
proof -
  have "ulp_exp x + 52 = ilog2 x" using assms(2) by (simp add: ulp_exp_def max_def split: if_splits)
  with ilog2_lower [OF assms(1)] show ?thesis by simp
qed

lemma ulp_exp_abs_mono:
  assumes "x \<noteq> 0" and "\<bar>x\<bar> \<le> \<bar>y\<bar>"
  shows "ulp_exp x \<le> ulp_exp y"
proof (rule ccontr)
  assume "\<not> ulp_exp x \<le> ulp_exp y"
  then have lt: "ulp_exp y + 53 \<le> ulp_exp x + 52" by simp
  from assms have ynz: "y \<noteq> 0" by auto
  have "- 1074 < ulp_exp x" using lt ulp_exp_lower [of y] by linarith
  from ulp_exp_normal [OF assms(1) this] have "2 powi (ulp_exp x + 52) \<le> \<bar>x\<bar>" .
  moreover have "(2 :: rat) powi (ulp_exp y + 53) \<le> 2 powi (ulp_exp x + 52)"
    using lt by (intro power_int_increasing) auto
  moreover note ulp_exp_upper [OF ynz] assms(2)
  ultimately show False by linarith
qed

lemma ulp_exp_minus [simp]: "ulp_exp (- x) = ulp_exp x"
  by (simp add: ulp_exp_def ilog2_def)

lemma round_half_even_minus: "round_half_even (- x) = - round_half_even x"
proof (cases "x = of_int \<lfloor>x\<rfloor>")
  case True
  then have "- x = of_int (- \<lfloor>x\<rfloor>)" by simp
  then have "round_half_even (- x) = - \<lfloor>x\<rfloor>" by (simp only: round_half_even_of_int)
  moreover have "round_half_even x = \<lfloor>x\<rfloor>" using True by (metis round_half_even_of_int)
  ultimately show ?thesis by simp
next
  case False
  have fx: "of_int \<lfloor>x\<rfloor> \<le> x" "x < of_int \<lfloor>x\<rfloor> + 1" by linarith+
  have "of_int \<lfloor>x\<rfloor> < x" by (metis False fx(1) order_le_less)
  then have "of_int (- \<lfloor>x\<rfloor> - 1) \<le> - x" "- x < of_int (- \<lfloor>x\<rfloor> - 1) + 1"
    using fx by simp_all
  then have fl: "\<lfloor>- x\<rfloor> = - \<lfloor>x\<rfloor> - 1" by (simp only: floor_unique)
  have d: "- x - of_int (- \<lfloor>x\<rfloor> - 1) = 1 - (x - of_int \<lfloor>x\<rfloor>)" by simp
  show ?thesis
    unfolding round_half_even_def Let_def fl d
    by (cases "x - of_int \<lfloor>x\<rfloor> < 1 / 2"; cases "1 / 2 < x - of_int \<lfloor>x\<rfloor>") auto
qed

subsection \<open>Rounding to binary64\<close>

lemma fl_0 [simp]: "fl 0 = 0"
  by (simp add: fl_def)

lemma fl_minus: "fl (- x) = - fl x"
  by (simp add: fl_def round_half_even_minus)

lemma fl_nonneg:
  assumes "0 \<le> x"
  shows "0 \<le> fl x"
proof (cases "x = 0")
  case False
  have "0 \<le> x / 2 powi ulp_exp x" using assms by simp
  from round_half_even_mono [OF this] have "0 \<le> round_half_even (x / 2 powi ulp_exp x)"
    using round_half_even_of_int [of 0] by simp
  then show ?thesis using False by (simp add: fl_def)
qed simp

lemma fl_mono_pos:
  assumes "0 < x" and "x \<le> y"
  shows "fl x \<le> fl y"
proof -
  have xnz: "x \<noteq> 0" and ynz: "y \<noteq> 0" using assms by auto
  have absx: "\<bar>x\<bar> = x" and absy: "\<bar>y\<bar> = y" using assms by auto
  have le: "ulp_exp x \<le> ulp_exp y"
    using ulp_exp_abs_mono [OF xnz] assms by (simp add: absx absy)
  show ?thesis
  proof (cases "ulp_exp x = ulp_exp y")
    case True
    have "x / 2 powi ulp_exp y \<le> y / 2 powi ulp_exp y"
      using assms(2) by (simp add: divide_right_mono)
    from round_half_even_mono [OF this]
    have "(of_int (round_half_even (x / 2 powi ulp_exp y)) :: rat)
           \<le> of_int (round_half_even (y / 2 powi ulp_exp y))"
      by (simp only: of_int_le_iff)
    then have "of_int (round_half_even (x / 2 powi ulp_exp y)) * 2 powi ulp_exp y
           \<le> of_int (round_half_even (y / 2 powi ulp_exp y)) * (2 :: rat) powi ulp_exp y"
      by (intro mult_right_mono) auto
    then show ?thesis using xnz ynz True by (simp add: fl_def)
  next
    case False
    with le have lt: "ulp_exp x + 53 \<le> ulp_exp y + 52" by simp
    have "x < 2 powi (ulp_exp x + 53)" using ulp_exp_upper [OF xnz] by (simp add: absx)
    also have "\<dots> = 2 ^ 53 * 2 powi ulp_exp x"
      by (simp add: power_int_add)
    finally have "x / 2 powi ulp_exp x \<le> of_int (2 ^ 53)"
      by (simp add: pos_divide_le_eq)
    from round_half_even_mono [OF this]
    have "round_half_even (x / 2 powi ulp_exp x) \<le> 2 ^ 53"
      by (simp only: round_half_even_of_int)
    then have "(of_int (round_half_even (x / 2 powi ulp_exp x)) :: rat) \<le> of_int (2 ^ 53)"
      by (simp only: of_int_le_iff)
    then have "of_int (round_half_even (x / 2 powi ulp_exp x)) * 2 powi ulp_exp x
           \<le> of_int (2 ^ 53) * (2 :: rat) powi ulp_exp x"
      by (intro mult_right_mono) auto
    also have "\<dots> = 2 powi (ulp_exp x + 53)" by (simp add: power_int_add)
    also have "\<dots> \<le> 2 powi (ulp_exp y + 52)"
      using lt by (intro power_int_increasing) auto
    finally have A: "fl x \<le> 2 powi (ulp_exp y + 52)" using xnz by (simp add: fl_def)
    have "- 1074 < ulp_exp y" using lt ulp_exp_lower [of x] by linarith
    from ulp_exp_normal [OF ynz this] have "2 powi (ulp_exp y + 52) \<le> y" by (simp add: absy)
    moreover have "(2 :: rat) powi (ulp_exp y + 52) = 2 ^ 52 * 2 powi ulp_exp y"
      by (simp add: power_int_add)
    ultimately have "of_int (2 ^ 52) \<le> y / 2 powi ulp_exp y"
      by (simp add: pos_le_divide_eq)
    from round_half_even_mono [OF this]
    have "2 ^ 52 \<le> round_half_even (y / 2 powi ulp_exp y)"
      by (simp only: round_half_even_of_int)
    then have "(of_int (2 ^ 52) :: rat) \<le> of_int (round_half_even (y / 2 powi ulp_exp y))"
      by (simp only: of_int_le_iff)
    then have B: "of_int (2 ^ 52) * (2 :: rat) powi ulp_exp y
           \<le> of_int (round_half_even (y / 2 powi ulp_exp y)) * 2 powi ulp_exp y"
      by (intro mult_right_mono) auto
    have C: "of_int (2 ^ 52) * (2 :: rat) powi ulp_exp y = 2 powi (ulp_exp y + 52)"
      by (simp add: power_int_add)
    have D: "fl y = of_int (round_half_even (y / 2 powi ulp_exp y)) * 2 powi ulp_exp y"
      using ynz by (simp add: fl_def)
    from A B C D show ?thesis by linarith
  qed
qed

lemma fl_mono:
  assumes "x \<le> y"
  shows "fl x \<le> fl y"
proof -
  consider "0 < x" | "x \<le> 0" "0 \<le> y" | "y < 0" by linarith
  then show ?thesis
  proof cases
    case 1
    then show ?thesis using assms by (rule fl_mono_pos)
  next
    case 2
    have "fl x \<le> 0" using fl_nonneg [of "- x"] 2(1) by (simp add: fl_minus)
    moreover have "0 \<le> fl y" using 2(2) by (rule fl_nonneg)
    ultimately show ?thesis by linarith
  next
    case 3
    have "fl (- y) \<le> fl (- x)" using 3 assms by (intro fl_mono_pos) auto
    then show ?thesis by (simp add: fl_minus)
  qed
qed

lemma round_half_even_unique:
  assumes "of_int k - 1 / 2 < x" and "x < of_int k + 1 / 2"
  shows "round_half_even x = k"
proof -
  have "(of_int (round_half_even x) :: rat) < of_int k + 1"
    using round_half_even_upper [of x] assms(2) by linarith
  then have "(of_int (round_half_even x) :: rat) < of_int (k + 1)" by simp
  then have "round_half_even x < k + 1" by (simp only: of_int_less_iff)
  moreover have "(of_int k :: rat) - 1 < of_int (round_half_even x)"
    using round_half_even_lower [of x] assms(1) by linarith
  then have "(of_int (k - 1) :: rat) < of_int (round_half_even x)" by simp
  then have "k - 1 < round_half_even x" by (simp only: of_int_less_iff)
  ultimately show ?thesis by linarith
qed

lemma fl_error: "\<bar>fl x - x\<bar> \<le> 2 powi ulp_exp x / 2"
proof (cases "x = 0")
  case False
  define u where "u = (2 :: rat) powi ulp_exp x"
  define t where "t = x / u"
  define r :: rat where "r = of_int (round_half_even t)"
  have upos: "0 < u" by (simp add: u_def)
  have x: "x = t * u" using upos by (simp add: t_def)
  have f: "fl x = r * u" using False by (simp add: fl_def t_def u_def r_def)
  have "\<bar>r - t\<bar> \<le> 1 / 2"
    unfolding r_def using round_half_even_upper [of t] round_half_even_lower [of t] by linarith
  then have "\<bar>r - t\<bar> * u \<le> 1 / 2 * u"
    using upos by (intro mult_right_mono) auto
  moreover have "fl x - x = (r - t) * u"
    unfolding f by (subst x) (simp add: left_diff_distrib)
  then have "\<bar>fl x - x\<bar> = \<bar>r - t\<bar> * u"
    using upos by (simp add: abs_mult)
  ultimately have "\<bar>fl x - x\<bar> \<le> u / 2" by simp
  then show ?thesis by (simp only: u_def)
qed simp

lemma fl_exact:
  assumes "\<bar>m\<bar> < 2 ^ 53" and "- 1074 \<le> e"
  shows "fl (of_int m * 2 powi e) = of_int m * 2 powi e"
proof (cases "m = 0")
  case False
  define x :: rat where "x = of_int m * 2 powi e"
  define u where "u = ulp_exp x"
  have xnz: "x \<noteq> 0" using False by (simp add: x_def)
  have "(of_int \<bar>m\<bar> :: rat) < of_int (2 ^ 53)" using assms(1) by (simp only: of_int_less_iff)
  then have "\<bar>of_int m :: rat\<bar> < 2 powi 53" by simp
  then have A: "\<bar>of_int m :: rat\<bar> * 2 powi e < 2 powi 53 * 2 powi e"
    by (intro mult_strict_right_mono) auto
  have B: "\<bar>x\<bar> = \<bar>of_int m :: rat\<bar> * 2 powi e"
    by (simp add: x_def abs_mult)
  have "(2 :: rat) powi (e + 53) = 2 powi e * 2 powi 53"
    by (rule power_int_add) simp
  then have C: "(2 :: rat) powi 53 * 2 powi e = 2 powi (e + 53)"
    by (simp only: mult.commute)
  from A B C have xlt: "\<bar>x\<bar> < 2 powi (e + 53)" by linarith
  have ue: "u \<le> e"
  proof (rule ccontr)
    assume "\<not> u \<le> e"
    then have lt: "e + 53 \<le> u + 52" by simp
    then have "- 1074 < ulp_exp x" using assms(2) by (simp add: u_def)
    from ulp_exp_normal [OF xnz this] have "2 powi (u + 52) \<le> \<bar>x\<bar>" by (simp add: u_def)
    moreover have "(2 :: rat) powi (e + 53) \<le> 2 powi (u + 52)"
      using lt by (intro power_int_increasing) auto
    ultimately show False using xlt by linarith
  qed
  define d where "d = nat (e - u)"
  have e: "e = u + int d" using ue by (simp add: d_def)
  have "(2 :: rat) powi (u + int d) = 2 powi u * 2 powi (int d)"
    by (rule power_int_add) simp
  then have pw: "(2 :: rat) powi e = 2 ^ d * 2 powi u"
    by (simp add: e)
  have "x / 2 powi u = of_int m * (2 ^ d * 2 powi u) / 2 powi u"
    unfolding x_def pw ..
  also have "\<dots> = of_int (m * 2 ^ d)" by simp
  finally have "round_half_even (x / 2 powi u) = m * 2 ^ d"
    by (simp only: round_half_even_of_int)
  then have "fl x = of_int (m * 2 ^ d) * 2 powi u"
    using xnz by (simp add: fl_def u_def)
  also have "\<dots> = of_int m * (2 ^ d * 2 powi u)" by simp
  also have "\<dots> = x" unfolding x_def pw ..
  finally show ?thesis by (simp only: x_def)
qed simp

lemma fl_of_int:
  assumes "\<bar>n\<bar> < 2 ^ 53"
  shows "fl (of_int n) = of_int n"
  using fl_exact [OF assms, of 0] by simp

lemma fl_of_int_half:
  assumes "\<bar>n\<bar> < 2 ^ 53"
  shows "fl (of_int n / 2) = of_int n / 2"
  using fl_exact [OF assms, of "- 1"] by simp

lemma fl_1 [simp]: "fl 1 = 1"
  using fl_of_int [of 1] by simp

subsection \<open>The float literals and the zone size\<close>

lemma float_0_2_value: "float_0_2 = 3602879701896397 / 18014398509481984"
  by code_simp

lemma float_0_33_value: "float_0_33 = 5944751508129055 / 18014398509481984"
  by code_simp

lemma float_0_66_value: "float_0_66 = 5944751508129055 / 9007199254740992"
  by code_simp

lemma int_to_float_exact:
  assumes "\<bar>n\<bar> < 2 ^ 53"
  shows "int_to_float n = Inr (of_int n)"
proof -
  have "(of_int \<bar>n\<bar> :: rat) < of_int (2 ^ 53)" using assms by (simp only: of_int_less_iff)
  then have "\<bar>of_int n :: rat\<bar> < 2 ^ 53" by simp
  moreover have "(2 :: rat) ^ 53 < 2 ^ 1024" by simp
  ultimately have "\<not> 2 ^ 1024 \<le> \<bar>of_int n :: rat\<bar>" by linarith
  then show ?thesis by (simp add: int_to_float_def fl_of_int [OF assms])
qed

lemma ulp_exp_le:
  assumes "x \<noteq> 0" and "\<bar>x\<bar> < 2 powi (k + 53)" and "- 1074 \<le> k"
  shows "ulp_exp x \<le> k"
proof (rule ccontr)
  assume "\<not> ulp_exp x \<le> k"
  then have lt: "k + 53 \<le> ulp_exp x + 52" by simp
  then have "- 1074 < ulp_exp x" using assms(3) by linarith
  from ulp_exp_normal [OF assms(1) this] have "2 powi (ulp_exp x + 52) \<le> \<bar>x\<bar>" .
  moreover have "(2 :: rat) powi (k + 53) \<le> 2 powi (ulp_exp x + 52)"
    using lt by (intro power_int_increasing) auto
  ultimately show False using assms(2) by linarith
qed

text \<open>The nearest integer to a fifth of an integer is at distance 2/5 at most.\<close>

lemma round_fifth_bounds:
  fixes n :: int
  defines "k \<equiv> round_half_even (of_int n / 5)"
  shows "of_int k - 2 / 5 \<le> (of_int n / 5 :: rat)" and "(of_int n / 5 :: rat) \<le> of_int k + 2 / 5"
proof -
  have "(of_int n / 5 :: rat) - 1 / 2 \<le> of_int k" "(of_int k :: rat) \<le> of_int n / 5 + 1 / 2"
    unfolding k_def by (rule round_half_even_lower, rule round_half_even_upper)
  then have "(of_int (2 * n - 5) :: rat) \<le> of_int (10 * k)" "(of_int (10 * k) :: rat) \<le> of_int (2 * n + 5)"
    by simp_all
  then have "2 * n - 5 \<le> 10 * k" "10 * k \<le> 2 * n + 5" by (simp_all only: of_int_le_iff)
  then have "2 * n - 4 \<le> 10 * k" "10 * k \<le> 2 * n + 4" by presburger+
  then have "(of_int (2 * n - 4) :: rat) \<le> of_int (10 * k)" "(of_int (10 * k) :: rat) \<le> of_int (2 * n + 4)"
    by (simp_all only: of_int_le_iff)
  then show "of_int k - 2 / 5 \<le> (of_int n / 5 :: rat)" and "(of_int n / 5 :: rat) \<le> of_int k + 2 / 5"
    by simp_all
qed

lemma zone_exact:
  assumes "0 \<le> n" and "n < 2 ^ 50"
  shows "zone n = Inr (max 3 (round_half_even (of_int n * (2 / 10))))"
proof -
  define r :: rat where "r = of_int n / 5"
  define x :: rat where "x = of_int n * float_0_2"
  define k where "k = round_half_even r"
  have n53: "\<bar>n\<bar> < 2 ^ 53" using assms by simp
  have conv: "int_to_float n = Inr (of_int n)" by (rule int_to_float_exact [OF n53])
  have "(of_int n :: rat) < of_int (2 ^ 50)" using assms(2) by (simp only: of_int_less_iff)
  then have nr: "(of_int n :: rat) < 2 ^ 50" "(0 :: rat) \<le> of_int n"
    using assms(1) by simp_all
  have xr: "x = r + of_int n / (5 * 2 ^ 54)"
    by (simp add: x_def r_def float_0_2_value)
  have x_lo: "r \<le> x" and x_hi: "x \<le> r + 1 / 80" and x_lt: "x < 2 ^ 48"
    using nr by (simp_all add: xr r_def)
  have err: "\<bar>fl x - x\<bar> \<le> 1 / 64"
  proof (cases "x = 0")
    case False
    have "0 \<le> x" using x_lo nr by (simp add: r_def)
    then have "\<bar>x\<bar> < 2 powi (- 5 + 53)" using x_lt by simp
    from ulp_exp_le [OF False this] have "ulp_exp x \<le> - 5" by simp
    then have "(2 :: rat) powi ulp_exp x \<le> 2 powi (- 5)"
      by (intro power_int_increasing) auto
    with fl_error [of x] show ?thesis by simp
  qed simp
  have kb: "of_int k - 2 / 5 \<le> r" "r \<le> of_int k + 2 / 5"
    unfolding k_def r_def by (rule round_fifth_bounds)+
  have "of_int k - 1 / 2 < fl x" "fl x < of_int k + 1 / 2"
    using err x_lo x_hi kb by linarith+
  then have "round_half_even (fl x) = k" by (rule round_half_even_unique)
  moreover have "of_int n * (2 / 10) = r" by (simp add: r_def)
  ultimately show ?thesis
    by (simp add: zone_def int_mul_float_def conv x_def k_def)
qed

subsection \<open>The stage of the season\<close>

text \<open>A binary64 value between two powers of two is a multiple of the spacing there.\<close>

lemma double_grid:
  assumes "is_double p" and "2 powi k \<le> \<bar>p\<bar>" and "\<bar>p\<bar> < 2 powi (k + 1)" and "- 1022 \<le> k"
  obtains m :: int where "p = of_int m * 2 powi (k - 52)"
proof -
  have "0 < (2 :: rat) powi k" by simp
  with assms(2) have "0 < \<bar>p\<bar>" by linarith
  then have nz: "p \<noteq> 0" by simp
  have "ilog2 p = k" using assms(2,3) by (rule ilog2_unique)
  then have u: "ulp_exp p = k - 52" using assms(4) by (simp add: ulp_exp_def)
  have "fl p = p" using assms(1) by (simp add: is_double_def)
  then have "p = of_int (round_half_even (p / 2 powi (k - 52))) * 2 powi (k - 52)"
    using nz by (simp add: fl_def u)
  then show ?thesis by (rule that)
qed

lemma less_float_0_33:
  assumes "is_double p"
  shows "p < float_0_33 \<longleftrightarrow> p < 33 / 100"
proof
  assume "p < 33 / 100"
  then show "p < float_0_33" by (simp add: float_0_33_value)
next
  assume lt: "p < float_0_33"
  show "p < 33 / 100"
  proof (rule ccontr)
    assume "\<not> p < 33 / 100"
    then have ge: "33 / 100 \<le> p" by simp
    have "2 powi (- 2) \<le> \<bar>p\<bar>" "\<bar>p\<bar> < 2 powi (- 2 + 1)"
      using ge lt by (simp_all add: float_0_33_value)
    from double_grid [OF assms this] obtain m :: int where "p = of_int m * 2 powi (- 2 - 52)"
      by auto
    then have p: "p = of_int m / 18014398509481984" by simp
    have "(of_int m :: rat) < of_int 5944751508129055" using lt by (simp add: p float_0_33_value)
    then have "m < 5944751508129055" by (simp only: of_int_less_iff)
    moreover have "(of_int 594475150812905472 :: rat) \<le> of_int (100 * m)" using ge by (simp add: p)
    then have "594475150812905472 \<le> 100 * m" by (simp only: of_int_le_iff)
    ultimately show False by linarith
  qed
qed

lemma less_float_0_66:
  assumes "is_double p"
  shows "p < float_0_66 \<longleftrightarrow> p < 66 / 100"
proof
  assume "p < 66 / 100"
  then show "p < float_0_66" by (simp add: float_0_66_value)
next
  assume lt: "p < float_0_66"
  show "p < 66 / 100"
  proof (rule ccontr)
    assume "\<not> p < 66 / 100"
    then have ge: "66 / 100 \<le> p" by simp
    have "2 powi (- 1) \<le> \<bar>p\<bar>" "\<bar>p\<bar> < 2 powi (- 1 + 1)"
      using ge lt by (simp_all add: float_0_66_value)
    from double_grid [OF assms this] obtain m :: int where "p = of_int m * 2 powi (- 1 - 52)"
      by auto
    then have p: "p = of_int m / 9007199254740992" by simp
    have "(of_int m :: rat) < of_int 5944751508129055" using lt by (simp add: p float_0_66_value)
    then have "m < 5944751508129055" by (simp only: of_int_less_iff)
    moreover have "(of_int 594475150812905472 :: rat) \<le> of_int (100 * m)" using ge by (simp add: p)
    then have "594475150812905472 \<le> 100 * m" by (simp only: of_int_le_iff)
    ultimately show False by linarith
  qed
qed

lemma is_double_float_0_33: "is_double float_0_33"
  unfolding is_double_def float_0_33_value by code_simp

lemma is_double_half: "is_double (1 / 2)"
  unfolding is_double_def by code_simp

text \<open>
  Claim C4. The stage is decided by the two thresholds alone: for every float
  \<open>progress\<close>, below 0.33 it is "early season", otherwise below 0.66 it is "mid-season",
  otherwise "end of the season". The source compares with the floats nearest to 0.33 and
  0.66; on floats this is the same as comparing with the decimals themselves. The float
  0.33 itself is "mid-season".
\<close>

theorem season_stage_thresholds:
  "(is_double progress \<longrightarrow>
      season_stage progress =
        (if progress < 33 / 100 then ''early season''
         else if progress < 66 / 100 then ''mid-season''
         else ''end of the season''))
   \<and> is_double (fl (33 / 100))
   \<and> season_stage (fl (33 / 100)) = ''mid-season''"
proof (intro conjI impI)
  assume "is_double progress"
  then show "season_stage progress =
        (if progress < 33 / 100 then ''early season''
         else if progress < 66 / 100 then ''mid-season''
         else ''end of the season'')"
    by (simp add: season_stage_def less_float_0_33 less_float_0_66)
next
  show "is_double (fl (33 / 100))" using is_double_float_0_33 by (simp add: float_0_33_def)
next
  have "season_stage float_0_33 = ''mid-season''"
    by (simp add: season_stage_def) (simp add: float_0_33_value float_0_66_value)
  then show "season_stage (fl (33 / 100)) = ''mid-season''" by (simp add: float_0_33_def)
qed

text \<open>The theorem at the float 0.5, in the middle of the season.\<close>

theorem season_stage_thresholds_witness:
  "is_double (1 / 2) \<and> season_stage (1 / 2) = ''mid-season''"
  using season_stage_thresholds [of "1 / 2"] is_double_half by simp

subsection \<open>The classifier at twenty teams\<close>

lemma zone_20: "zone 20 = Inr 4"
  by code_simp

lemma half_20: "int_truediv 20 2 = Inr 10"
  by code_simp

lemma zoneSize_spec_20: "zoneSize_spec 20 = 4"
  by code_simp

text \<open>
  Claim C5. With 20 teams the zone size is 4, as computed with floats and in exact
  arithmetic, the half of the table is 10 and, whatever the progress is, positions
  (1, 2) are a top clash, (19, 20) a relegation battle, (1, 15) important for the top
  team and (10, 11) a regular match, each followed by the stage in parentheses. The
  text of the label comes after the blank that starts every string of the source.
\<close>

theorem match_importance_twenty_teams:
  "zone 20 = Inr 4
   \<and> zoneSize_spec 20 = 4
   \<and> int_truediv 20 2 = Inr 10
   \<and> match_importance (PInt 1) (PInt 2) 20 progress
       = Inr ('' Top clash ('' @ season_stage progress @ '')'')
   \<and> match_importance (PInt 19) (PInt 20) 20 progress
       = Inr ('' Relegation battle ('' @ season_stage progress @ '')'')
   \<and> match_importance (PInt 1) (PInt 15) 20 progress
       = Inr ('' Important for top team ('' @ season_stage progress @ '')'')
   \<and> match_importance (PInt 10) (PInt 11) 20 progress
       = Inr ('' Regular match ('' @ season_stage progress @ '')'')"
  by (simp add: match_importance_def zone_20 half_20 zoneSize_spec_20)

subsection \<open>Symmetry of the classifier\<close>

text \<open>
  Claim C6. Swapping the two positions does not change the result of
  \<^verbatim>\<open>match_importance\<close>, for all positions, every number of teams and every progress:
  the same string, or the same exception.
\<close>

theorem match_importance_symmetric:
  "match_importance pos1 pos2 total_teams progress
   = match_importance pos2 pos1 total_teams progress"
  unfolding match_importance_def
  by (auto simp: Let_def split: sum.splits dest: as_int_error)

subsection \<open>The classifier and the ordered checks of the specification\<close>

lemma int_truediv_2_exact:
  assumes "\<bar>n\<bar> < 2 ^ 53"
  shows "int_truediv n 2 = Inr (of_int n / 2)"
proof -
  have "(of_int \<bar>n\<bar> :: rat) < of_int (2 ^ 53)" using assms by (simp only: of_int_less_iff)
  then have "\<bar>of_int n / 2 :: rat\<bar> < 2 ^ 1024" by simp
  then have "\<not> 2 ^ 1024 \<le> \<bar>of_int n / 2 :: rat\<bar>" by simp
  then show ?thesis by (simp add: int_truediv_def fl_of_int_half [OF assms])
qed

lemma zone_spec:
  assumes "0 \<le> n" and "n < 2 ^ 50"
  shows "zone n = Inr (zoneSize_spec n)"
  unfolding zoneSize_spec_def using assms by (rule zone_exact)

text \<open>Once the zone size is computed, \<^verbatim>\<open>total_teams / 2\<close> cannot overflow.\<close>

lemma fl_abs_mono:
  assumes "\<bar>x\<bar> \<le> \<bar>y\<bar>"
  shows "\<bar>fl x\<bar> \<le> \<bar>fl y\<bar>"
proof -
  have a: "\<bar>fl z\<bar> = fl \<bar>z\<bar>" for z
  proof (cases "0 \<le> z")
    case True
    then show ?thesis using fl_nonneg [of z] by simp
  next
    case False
    then have "0 \<le> - z" by simp
    from fl_nonneg [OF this] False show ?thesis by (simp add: fl_minus)
  qed
  show ?thesis unfolding a using assms by (rule fl_mono)
qed

lemma half_defined:
  assumes "zone n = Inr z"
  shows "\<exists>h. int_truediv n 2 = Inr h"
proof -
  from assms have "\<not> 2 ^ 1024 \<le> \<bar>fl (of_int n)\<bar>"
    by (auto simp: zone_def int_mul_float_def int_to_float_def split: sum.splits if_splits)
  moreover have "\<bar>fl (of_int n / of_int 2)\<bar> \<le> \<bar>fl (of_int n)\<bar>"
    by (rule fl_abs_mono) simp
  ultimately have "\<not> 2 ^ 1024 \<le> \<bar>fl (of_int n / of_int 2)\<bar>" by linarith
  then show ?thesis by (simp add: int_truediv_def)
qed

text \<open>
  Claim C1, as amended. Take positions that are numbers. When the number of teams is too
  large for a float, \<^verbatim>\<open>match_importance\<close> raises the OverflowError of the
  multiplication. Otherwise it computes the zone size
  \<open>max(3, round(total_teams * 0.2))\<close>, the same for the top and the bottom zone, and
  returns one blank, the label that the ordered checks of the specification give for
  this zone size and for \<open>total_teams / 2\<close>, one blank and the stage in parentheses. For a
  number of teams from 0 to below \<open>2 ^ 50\<close> the two float computations are exact: the
  zone size is the one of the specification in exact arithmetic and the half is
  \<open>total_teams / 2\<close>.
\<close>

theorem match_importance_classification:
  "(zone total_teams = Inl e \<longrightarrow>
      match_importance pos1 pos2 total_teams progress = Inl e)
   \<and> (zone total_teams = Inr zoneSize \<and> as_int pos1 = Inr p1 \<and> as_int pos2 = Inr p2 \<longrightarrow>
      (\<exists>half. int_truediv total_teams 2 = Inr half
        \<and> match_importance pos1 pos2 total_teams progress
          = Inr ('' '' @ label_spec zoneSize half p1 p2 total_teams
                 @ '' ('' @ season_stage progress @ '')'')))
   \<and> (0 \<le> total_teams \<and> total_teams < 2 ^ 50 \<longrightarrow>
      zone total_teams = Inr (zoneSize_spec total_teams)
      \<and> int_truediv total_teams 2 = Inr (of_int total_teams / 2))"
proof (intro conjI impI)
  assume "zone total_teams = Inl e"
  then show "match_importance pos1 pos2 total_teams progress = Inl e"
    by (simp add: match_importance_def)
next
  assume a: "zone total_teams = Inr zoneSize \<and> as_int pos1 = Inr p1 \<and> as_int pos2 = Inr p2"
  then have z: "zone total_teams = Inr zoneSize"
    and p: "as_int pos1 = Inr p1" "as_int pos2 = Inr p2" by simp_all
  from half_defined [OF z] obtain half where h: "int_truediv total_teams 2 = Inr half" by blast
  have "match_importance pos1 pos2 total_teams progress
          = Inr ('' '' @ label_spec zoneSize half p1 p2 total_teams
                 @ '' ('' @ season_stage progress @ '')'')"
    unfolding match_importance_def label_spec_def Let_def z h p
    by (simp split: if_splits)
  with h show "\<exists>half. int_truediv total_teams 2 = Inr half
        \<and> match_importance pos1 pos2 total_teams progress
          = Inr ('' '' @ label_spec zoneSize half p1 p2 total_teams
                 @ '' ('' @ season_stage progress @ '')'')"
    by blast
next
  assume a: "0 \<le> total_teams \<and> total_teams < 2 ^ 50"
  then show "zone total_teams = Inr (zoneSize_spec total_teams)" by (simp add: zone_spec)
  from a have "\<bar>total_teams\<bar> < 2 ^ 53" by simp
  then show "int_truediv total_teams 2 = Inr (of_int total_teams / 2)"
    by (rule int_truediv_2_exact)
qed

text \<open>
  Positions 1 and 2 of 20 teams in the middle of the season: the string starts with a
  blank, so it is not the label followed by the stage.
\<close>

theorem match_importance_classification_counterexample:
  "match_importance (PInt 1) (PInt 2) 20 (1 / 2) = Inr '' Top clash (mid-season)''
   \<and> match_importance (PInt 1) (PInt 2) 20 (1 / 2) \<noteq> Inr ''Top clash (mid-season)''"
proof -
  have "season_stage (1 / 2) = ''mid-season''"
    by (simp add: season_stage_def float_0_33_value float_0_66_value)
  then show ?thesis by (simp add: match_importance_def zone_20 half_20)
qed

text \<open>
  The theorem at positions 1 and 15 of 20 teams: the zone size is 4, in floats and in
  exact arithmetic, the half is 10 and the match is important for the top team.
\<close>

theorem match_importance_classification_witness:
  "zone 20 = Inr 4
   \<and> zoneSize_spec 20 = 4
   \<and> as_int (PInt 1) = Inr 1
   \<and> as_int (PInt 15) = Inr 15
   \<and> int_truediv 20 2 = Inr 10
   \<and> label_spec 4 10 1 15 20 = ''Important for top team''
   \<and> match_importance (PInt 1) (PInt 15) 20 (1 / 2)
     = Inr '' Important for top team (mid-season)''"
proof -
  have s: "season_stage (1 / 2) = ''mid-season''"
    by (simp add: season_stage_def float_0_33_value float_0_66_value)
  note T = match_importance_classification [of 20 _ "PInt 1" "PInt 15" "1 / 2" 4 1 15]
  from T have z: "zoneSize_spec 20 = 4" using zone_20 by simp
  have l: "label_spec 4 10 1 15 20 = ''Important for top team''"
    by (simp add: label_spec_def)
  from T zone_20 half_20 s l
  have "match_importance (PInt 1) (PInt 15) 20 (1 / 2)
     = Inr '' Important for top team (mid-season)''"
    by simp
  with zone_20 z half_20 l show ?thesis by simp
qed

subsection \<open>The season progress\<close>

lemma fl_pow2:
  assumes "- 1074 \<le> e"
  shows "fl (2 powi e) = 2 powi e"
  using fl_exact [of 1 e] assms by simp

lemma fl_pos:
  assumes "1 \<le> x"
  shows "1 \<le> fl x"
  using fl_mono [OF assms] by simp

lemma fl_abs_less:
  assumes "\<bar>x\<bar> \<le> 2 powi e" and "- 1074 \<le> e"
  shows "\<bar>fl x\<bar> \<le> 2 powi e"
proof -
  have "fl x \<le> fl (2 powi e)" using assms(1) by (intro fl_mono) linarith
  moreover have "fl (- (2 powi e)) \<le> fl x" using assms(1) by (intro fl_mono) linarith
  ultimately show ?thesis by (simp add: fl_minus fl_pow2 [OF assms(2)] abs_le_iff)
qed

text \<open>What lines 45 to 48 compute when they raise nothing.\<close>

lemma season_progress_value:
  assumes "season_progress s n = Inr p" and "2 \<le> n"
  shows "p = fl (fl (of_int s / of_int n) / fl (of_int ((n - 1) * 2)))"
  using assms
  by (auto simp: season_progress_def int_truediv_def float_truediv_int_def int_to_float_def Let_def
      split: if_splits sum.splits)

lemma divisor_pos:
  assumes "2 \<le> (n :: int)"
  shows "1 \<le> fl (of_int ((n - 1) * 2))"
proof -
  have "1 \<le> (n - 1) * 2" using assms by simp
  then have "(of_int 1 :: rat) \<le> of_int ((n - 1) * 2)" by (simp only: of_int_le_iff)
  then have "(1 :: rat) \<le> of_int ((n - 1) * 2)" by simp
  then show ?thesis by (rule fl_pos)
qed

lemma season_progress_mono:
  assumes "season_progress s n = Inr p" and "season_progress s' n = Inr p'"
    and "2 \<le> n" and "s \<le> s'"
  shows "p \<le> p'"
proof -
  define d where "d = fl (of_int ((n - 1) * 2))"
  have d: "0 < d" using divisor_pos [OF assms(3)] by (simp add: d_def)
  have npos: "(0 :: rat) < of_int n" using assms(3) by simp
  have "(of_int s :: rat) \<le> of_int s'" using assms(4) by (simp only: of_int_le_iff)
  then have "(of_int s :: rat) / of_int n \<le> of_int s' / of_int n"
    using npos by (simp add: divide_right_mono)
  then have "fl (of_int s / of_int n) \<le> fl (of_int s' / of_int n)" by (rule fl_mono)
  then have "fl (of_int s / of_int n) / d \<le> fl (of_int s' / of_int n) / d"
    using d by (simp add: divide_right_mono)
  then have "fl (fl (of_int s / of_int n) / d) \<le> fl (fl (of_int s' / of_int n) / d)"
    by (rule fl_mono)
  then show ?thesis
    unfolding season_progress_value [OF assms(1,3)] season_progress_value [OF assms(2,3)] d_def .
qed

lemma season_progress_nonneg:
  assumes "season_progress s n = Inr p" and "2 \<le> n" and "0 \<le> s"
  shows "0 \<le> p"
proof -
  define d where "d = fl (of_int ((n - 1) * 2))"
  have d: "0 < d" using divisor_pos [OF assms(2)] by (simp add: d_def)
  have "(0 :: rat) \<le> of_int s / of_int n" using assms(2,3) by simp
  then have "0 \<le> fl (of_int s / of_int n)" by (rule fl_nonneg)
  then have "0 \<le> fl (of_int s / of_int n) / d" using d by simp
  then have "0 \<le> fl (fl (of_int s / of_int n) / d)" by (rule fl_nonneg)
  then show ?thesis unfolding season_progress_value [OF assms(1,2)] d_def .
qed

lemma season_progress_le_1:
  assumes "season_progress s n = Inr p" and "2 \<le> n" and "s \<le> n * ((n - 1) * 2)"
  shows "p \<le> 1"
proof -
  define d where "d = fl (of_int ((n - 1) * 2))"
  have d: "0 < d" using divisor_pos [OF assms(2)] by (simp add: d_def)
  have npos: "(0 :: rat) < of_int n" using assms(2) by simp
  have "(of_int s :: rat) \<le> of_int (n * ((n - 1) * 2))" using assms(3) by (simp only: of_int_le_iff)
  then have "(of_int s :: rat) \<le> of_int ((n - 1) * 2) * of_int n" by (simp add: mult.commute)
  then have "(of_int s :: rat) / of_int n \<le> of_int ((n - 1) * 2)"
    using npos by (simp only: pos_divide_le_eq)
  then have "fl (of_int s / of_int n) \<le> d" unfolding d_def by (rule fl_mono)
  then have "fl (of_int s / of_int n) / d \<le> 1" using d by simp
  then have "fl (fl (of_int s / of_int n) / d) \<le> fl 1" by (rule fl_mono)
  then show ?thesis unfolding season_progress_value [OF assms(1,2)] d_def by simp
qed

lemma season_progress_returns:
  assumes "2 \<le> n" and "n < 2 ^ 63" and "0 \<le> s" and "s \<le> n * ((n - 1) * 2)"
  shows "\<exists>p. season_progress s n = Inr p"
proof -
  define m where "m = (n - 1) * 2"
  have m: "0 \<le> m" "m < 2 ^ 64" using assms(1,2) by (simp_all add: m_def)
  have npos: "(0 :: rat) < of_int n" using assms(1) by simp
  have "(of_int m :: rat) < of_int (2 ^ 64)" using m(2) by (simp only: of_int_less_iff)
  then have mr: "(of_int m :: rat) \<le> 2 powi 64" "(0 :: rat) \<le> of_int m" using m(1) by simp_all
  then have "\<bar>of_int m :: rat\<bar> \<le> 2 powi 64" by simp
  then have "\<bar>fl (of_int m)\<bar> \<le> 2 powi 64" by (rule fl_abs_less) simp
  then have A: "\<not> 2 ^ 1024 \<le> \<bar>fl (of_int m)\<bar>" by simp
  have "(of_int s :: rat) \<le> of_int (n * m)" using assms(4) unfolding m_def by (simp only: of_int_le_iff)
  then have "(of_int s :: rat) \<le> of_int m * of_int n" by (simp add: mult.commute)
  then have "(of_int s :: rat) / of_int n \<le> of_int m"
    using npos by (simp only: pos_divide_le_eq)
  moreover have "(0 :: rat) \<le> of_int s / of_int n" using assms(1,3) by simp
  ultimately have "\<bar>of_int s / of_int n :: rat\<bar> \<le> 2 powi 64" using mr(1) by simp
  then have "\<bar>fl (of_int s / of_int n)\<bar> \<le> 2 powi 64" by (rule fl_abs_less) simp
  then have B: "\<not> 2 ^ 1024 \<le> \<bar>fl (of_int s / of_int n)\<bar>" by simp
  have C: "fl (of_int m) \<noteq> 0" using divisor_pos [OF assms(1)] by (simp add: m_def)
  show ?thesis
    using A B C assms(1)
    by (simp add: season_progress_def int_truediv_def float_truediv_int_def int_to_float_def
        Let_def m_def)
qed

text \<open>
  The two roundings of lines 45 to 48 move the progress of a table within the double
  round-robin bound by at most \<open>2 ^ (- 52)\<close> from the exact quotient.
\<close>

lemma ulp_exp_1: "ulp_exp 1 = - 52"
  by code_simp

lemma fl_error_le_1:
  assumes "\<bar>x\<bar> \<le> 1"
  shows "\<bar>fl x - x\<bar> \<le> 1 / 2 ^ 53"
proof (cases "x = 0")
  case True
  then show ?thesis by simp
next
  case False
  have "\<bar>x\<bar> \<le> \<bar>1 :: rat\<bar>" using assms by simp
  with False have "ulp_exp x \<le> ulp_exp 1" by (rule ulp_exp_abs_mono)
  then have "ulp_exp x \<le> - 52" by (simp add: ulp_exp_1)
  then have "(2 :: rat) powi ulp_exp x \<le> 2 powi (- 52)"
    by (intro power_int_increasing) auto
  then have "(2 :: rat) powi ulp_exp x / 2 \<le> 2 powi (- 52) / 2" by simp
  also have "\<dots> = 1 / 2 ^ 53" by (simp add: power_int_minus)
  finally show ?thesis using fl_error [of x] by linarith
qed

lemma fl_error_rel:
  assumes "0 \<le> x" and "x \<le> d" and "1 \<le> d"
  shows "\<bar>fl x - x\<bar> \<le> d / 2 ^ 53"
proof (cases "x = 0")
  case True
  then show ?thesis using assms(3) by simp
next
  case False
  have d0: "d \<noteq> 0" using assms(3) by simp
  have "\<bar>1 :: rat\<bar> \<le> \<bar>d\<bar>" using assms(3) by simp
  then have "ulp_exp 1 \<le> ulp_exp d" by (intro ulp_exp_abs_mono) simp
  then have n: "- 1074 < ulp_exp d" by (simp add: ulp_exp_1)
  have A: "2 powi (ulp_exp d + 52) \<le> d" using ulp_exp_normal [OF d0 n] assms(3) by simp
  have "\<bar>x\<bar> \<le> \<bar>d\<bar>" using assms(1,2) by simp
  with False have "ulp_exp x \<le> ulp_exp d" by (rule ulp_exp_abs_mono)
  then have B: "(2 :: rat) powi ulp_exp x \<le> 2 powi ulp_exp d"
    by (intro power_int_increasing) auto
  have C: "(2 :: rat) powi (ulp_exp d + 52) = 2 powi ulp_exp d * 2 ^ 52"
    by (simp add: power_int_add)
  have "(2 :: rat) powi ulp_exp x * 2 ^ 52 \<le> 2 powi ulp_exp d * 2 ^ 52"
    using B by (intro mult_right_mono) auto
  with A C have "(2 :: rat) powi ulp_exp x * 2 ^ 52 \<le> d" by linarith
  then have "(2 :: rat) powi ulp_exp x / 2 \<le> d / 2 ^ 53" by (simp add: field_simps)
  with fl_error [of x] show ?thesis by linarith
qed

lemma season_progress_accurate:
  assumes sp: "season_progress s n = Inr p" and n2: "2 \<le> n" and n52: "n < 2 ^ 52"
    and s0: "0 \<le> s" and sb: "s \<le> n * ((n - 1) * 2)"
  shows "\<bar>p - of_int s / (of_int n * of_int ((n - 1) * 2))\<bar> \<le> 1 / 2 ^ 52"
proof -
  define d :: rat where "d = of_int ((n - 1) * 2)"
  define e :: rat where "e = of_int s / of_int n"
  define a where "a = fl e"
  have "\<bar>(n - 1) * 2\<bar> < 2 ^ 53" using n2 n52 by simp
  then have fd: "fl d = d" unfolding d_def by (rule fl_of_int)
  have d1: "1 \<le> d" using divisor_pos [OF n2] fd by (simp add: d_def)
  have npos: "(0 :: rat) < of_int n" using n2 by simp
  have e0: "0 \<le> e" using s0 npos by (simp add: e_def)
  have "(of_int s :: rat) \<le> of_int (n * ((n - 1) * 2))" using sb by (simp only: of_int_le_iff)
  then have "(of_int s :: rat) \<le> d * of_int n" by (simp add: mult.commute d_def)
  then have ed: "e \<le> d" unfolding e_def using npos by (simp only: pos_divide_le_eq)
  have p: "p = fl (a / d)"
    using season_progress_value [OF sp n2] fd by (simp add: a_def e_def d_def)
  have A: "\<bar>a - e\<bar> \<le> d / 2 ^ 53" unfolding a_def using e0 ed d1 by (rule fl_error_rel)
  have a0: "0 \<le> a" unfolding a_def using e0 by (rule fl_nonneg)
  have "a \<le> fl d" unfolding a_def using ed by (rule fl_mono)
  then have ad: "a \<le> d" by (simp add: fd)
  have q: "\<bar>a / d\<bar> \<le> 1" using a0 ad d1 by simp
  have B: "\<bar>fl (a / d) - a / d\<bar> \<le> 1 / 2 ^ 53" using q by (rule fl_error_le_1)
  have "\<bar>a / d - e / d\<bar> = \<bar>a - e\<bar> / d" using d1 by (simp add: diff_divide_distrib [symmetric])
  also have "\<dots> \<le> (d / 2 ^ 53) / d" using A d1 by (intro divide_right_mono) auto
  also have "\<dots> = 1 / 2 ^ 53" using d1 by simp
  finally have C: "\<bar>a / d - e / d\<bar> \<le> 1 / 2 ^ 53" .
  have D: "e / d = of_int s / (of_int n * of_int ((n - 1) * 2))" by (simp add: e_def d_def)
  have "(1 :: rat) / 2 ^ 53 + 1 / 2 ^ 53 = 1 / 2 ^ 52" by simp
  with B C have "\<bar>fl (a / d) - e / d\<bar> \<le> 1 / 2 ^ 52" by linarith
  then show ?thesis unfolding p D .
qed

lemma sum_played_eq:
  assumes "map played_games rows = map Inr ps"
  shows "sum_played acc rows = Inr (acc + sum_list ps)"
  using assms
proof (induction rows arbitrary: acc ps)
  case Nil
  then show ?case by simp
next
  case (Cons team rest)
  then obtain q qs where ps: "ps = q # qs" by (cases ps) auto
  with Cons.prems have "played_games team = Inr q" "map played_games rest = map Inr qs"
    by simp_all
  with Cons.IH [of qs "acc + q"] show ?case by (simp add: ps add.assoc)
qed

lemma sum_list_mono_all2:
  fixes ps :: "int list"
  assumes "list_all2 (\<le>) ps ps'"
  shows "sum_list ps \<le> sum_list ps'"
  using assms by (induction rule: list_all2_induct) auto

lemma sum_list_le_length:
  fixes ps :: "int list"
  assumes "list_all (\<lambda>q. q \<le> m) ps"
  shows "sum_list ps \<le> int (length ps) * m"
  using assms by (induction ps) (auto simp: algebra_simps)

lemma sum_list_nonneg_all:
  fixes ps :: "int list"
  assumes "list_all (\<lambda>q. 0 \<le> q) ps"
  shows "0 \<le> sum_list ps"
  using assms by (induction ps) auto

lemma season_progress_examples:
  "season_progress 3 2 = Inr (3 / 4)" "season_progress 4 2 = Inr 1"
  by code_simp+

text \<open>
  Claim C9. Take a standings table of at least two rows whose played games are the
  integers \<open>ps\<close>, and write \<open>n\<close> for the number of rows. The sum that \<^verbatim>\<open>get_standings\<close>
  computes is the sum of \<open>ps\<close>, and the season progress computed from it
  \<^item> is \<^verbatim>\<open>(sum / n) / ((n - 1) * 2)\<close> in float arithmetic: the quotient of the sum by \<open>n\<close>,
    rounded, divided by the float of \<open>(n - 1) * 2\<close>, and rounded again;
  \<^item> differs from the exact quotient \<open>(sum / n) / ((n - 1) * 2)\<close> by at most \<open>2 ^ (- 52)\<close>
    when there are fewer than \<open>2 ^ 52\<close> rows and the played games are between 0 and
    \<open>(n - 1) * 2\<close>;
  \<^item> is at least 0 when no team has a negative number of played games;
  \<^item> is at most 1 when every team has played at most \<open>(n - 1) * 2\<close> games, so that it
    exceeds 1 only when some team has played more than that;
  \<^item> does not decrease when the played games of the teams increase (\<open>ps'\<close> is
    pointwise at least \<open>ps\<close>); and
  \<^item> is returned, without any exception and with the value above, for a table of fewer
    than \<open>2 ^ 63\<close> rows whose played games are between 0 and \<open>(n - 1) * 2\<close>.
\<close>

theorem season_progress_monotone_bounded:
  assumes rows: "map played_games rows = map Inr ps"
    and two: "2 \<le> length rows"
  shows "sum_played 0 rows = Inr (sum_list ps)
    \<and> (\<forall>p. season_progress (sum_list ps) (int (length rows)) = Inr p \<longrightarrow>
          p = fl (fl (of_int (sum_list ps) / of_int (int (length rows)))
                  / fl (of_int ((int (length rows) - 1) * 2)))
        \<and> (int (length rows) < 2 ^ 52
            \<and> list_all (\<lambda>q. 0 \<le> q \<and> q \<le> (int (length rows) - 1) * 2) ps \<longrightarrow>
            \<bar>p - (of_int (sum_list ps) / of_int (int (length rows)))
                   / of_int ((int (length rows) - 1) * 2)\<bar> \<le> 1 / 2 ^ 52)
        \<and> (list_all (\<lambda>q. 0 \<le> q) ps \<longrightarrow> 0 \<le> p)
        \<and> (list_all (\<lambda>q. q \<le> (int (length rows) - 1) * 2) ps \<longrightarrow> p \<le> 1)
        \<and> (1 < p \<longrightarrow> list_ex (\<lambda>q. (int (length rows) - 1) * 2 < q) ps)
        \<and> (\<forall>rows' ps' p'.
              map played_games rows' = map Inr ps' \<and> list_all2 (\<le>) ps ps'
              \<and> season_progress (sum_list ps') (int (length rows')) = Inr p'
              \<longrightarrow> sum_played 0 rows' = Inr (sum_list ps') \<and> p \<le> p'))
    \<and> (int (length rows) < 2 ^ 63
        \<and> list_all (\<lambda>q. 0 \<le> q \<and> q \<le> (int (length rows) - 1) * 2) ps
        \<longrightarrow> season_progress (sum_list ps) (int (length rows))
            = Inr (fl (fl (of_int (sum_list ps) / of_int (int (length rows)))
                       / fl (of_int ((int (length rows) - 1) * 2)))))"
proof -
  define n where "n = int (length rows)"
  have n2: "2 \<le> n" using two by (simp add: n_def)
  have len: "length ps = length rows" using rows by (metis length_map)
  have bound: "sum_list ps \<le> n * ((n - 1) * 2)" if "list_all (\<lambda>q. q \<le> (n - 1) * 2) ps"
    using sum_list_le_length [OF that] by (simp add: len n_def)
  have split: "list_all (\<lambda>q. 0 \<le> q) ps \<and> list_all (\<lambda>q. q \<le> (n - 1) * 2) ps"
    if "list_all (\<lambda>q. 0 \<le> q \<and> q \<le> (n - 1) * 2) ps"
    using that by (auto simp: list_all_iff)
  have s: "sum_played 0 rows = Inr (sum_list ps)"
    using sum_played_eq [OF rows, of 0] by simp
  have val: "p = fl (fl (of_int (sum_list ps) / of_int n) / fl (of_int ((n - 1) * 2)))"
    if "season_progress (sum_list ps) n = Inr p" for p
    using that n2 by (rule season_progress_value)
  have acc: "\<bar>p - (of_int (sum_list ps) / of_int n) / of_int ((n - 1) * 2)\<bar> \<le> 1 / 2 ^ 52"
    if "season_progress (sum_list ps) n = Inr p" "n < 2 ^ 52"
      "list_all (\<lambda>q. 0 \<le> q \<and> q \<le> (n - 1) * 2) ps" for p
  proof -
    from split [OF that(3)] have a: "list_all (\<lambda>q. 0 \<le> q) ps"
      and b: "list_all (\<lambda>q. q \<le> (n - 1) * 2) ps" by simp_all
    have "\<bar>p - of_int (sum_list ps) / (of_int n * of_int ((n - 1) * 2))\<bar> \<le> 1 / 2 ^ 52"
      using that(1) n2 that(2) sum_list_nonneg_all [OF a] bound [OF b]
      by (rule season_progress_accurate)
    then show ?thesis by simp
  qed
  have nonneg: "0 \<le> p"
    if "season_progress (sum_list ps) n = Inr p" "list_all (\<lambda>q. 0 \<le> q) ps" for p
    using season_progress_nonneg [OF that(1) n2 sum_list_nonneg_all [OF that(2)]] .
  have le1: "p \<le> 1"
    if "season_progress (sum_list ps) n = Inr p" "list_all (\<lambda>q. q \<le> (n - 1) * 2) ps" for p
    using season_progress_le_1 [OF that(1) n2 bound [OF that(2)]] .
  have gt1: "list_ex (\<lambda>q. (n - 1) * 2 < q) ps"
    if "season_progress (sum_list ps) n = Inr p" "1 < p" for p
  proof (rule ccontr)
    assume "\<not> list_ex (\<lambda>q. (n - 1) * 2 < q) ps"
    then have "list_all (\<lambda>q. q \<le> (n - 1) * 2) ps"
      by (auto simp: list_ex_iff list_all_iff)
    from le1 [OF that(1) this] that(2) show False by simp
  qed
  have mono: "sum_played 0 rows' = Inr (sum_list ps') \<and> p \<le> p'"
    if "season_progress (sum_list ps) n = Inr p" "map played_games rows' = map Inr ps'"
      "list_all2 (\<le>) ps ps'" "season_progress (sum_list ps') (int (length rows')) = Inr p'"
    for p rows' ps' p'
  proof -
    have "length ps' = length rows'" using that(2) by (metis length_map)
    moreover have "length ps = length ps'" using that(3) by (rule list_all2_lengthD)
    ultimately have "int (length rows') = n" by (simp add: n_def len)
    with that(4) have p': "season_progress (sum_list ps') n = Inr p'" by simp
    have "p \<le> p'"
      using season_progress_mono [OF that(1) p' n2 sum_list_mono_all2 [OF that(3)]] .
    moreover have "sum_played 0 rows' = Inr (sum_list ps')"
      using sum_played_eq [OF that(2), of 0] by simp
    ultimately show ?thesis by simp
  qed
  have ret: "season_progress (sum_list ps) n
      = Inr (fl (fl (of_int (sum_list ps) / of_int n) / fl (of_int ((n - 1) * 2))))"
    if "n < 2 ^ 63" "list_all (\<lambda>q. 0 \<le> q \<and> q \<le> (n - 1) * 2) ps"
  proof -
    from split [OF that(2)] have a: "list_all (\<lambda>q. 0 \<le> q) ps"
      and b: "list_all (\<lambda>q. q \<le> (n - 1) * 2) ps" by simp_all
    from season_progress_returns [OF n2 that(1) sum_list_nonneg_all [OF a] bound [OF b]]
    obtain p where p: "season_progress (sum_list ps) n = Inr p" by blast
    with val [OF p] show ?thesis by simp
  qed
  have all: "\<forall>p. season_progress (sum_list ps) n = Inr p \<longrightarrow>
          p = fl (fl (of_int (sum_list ps) / of_int n) / fl (of_int ((n - 1) * 2)))
        \<and> (n < 2 ^ 52 \<and> list_all (\<lambda>q. 0 \<le> q \<and> q \<le> (n - 1) * 2) ps \<longrightarrow>
            \<bar>p - (of_int (sum_list ps) / of_int n) / of_int ((n - 1) * 2)\<bar> \<le> 1 / 2 ^ 52)
        \<and> (list_all (\<lambda>q. 0 \<le> q) ps \<longrightarrow> 0 \<le> p)
        \<and> (list_all (\<lambda>q. q \<le> (n - 1) * 2) ps \<longrightarrow> p \<le> 1)
        \<and> (1 < p \<longrightarrow> list_ex (\<lambda>q. (n - 1) * 2 < q) ps)
        \<and> (\<forall>rows' ps' p'.
              map played_games rows' = map Inr ps' \<and> list_all2 (\<le>) ps ps'
              \<and> season_progress (sum_list ps') (int (length rows')) = Inr p'
              \<longrightarrow> sum_played 0 rows' = Inr (sum_list ps') \<and> p \<le> p')"
  proof (intro allI impI conjI)
    fix p assume sp: "season_progress (sum_list ps) n = Inr p"
    show "p = fl (fl (of_int (sum_list ps) / of_int n) / fl (of_int ((n - 1) * 2)))"
      using sp by (rule val)
    show "\<bar>p - (of_int (sum_list ps) / of_int n) / of_int ((n - 1) * 2)\<bar> \<le> 1 / 2 ^ 52"
      if "n < 2 ^ 52 \<and> list_all (\<lambda>q. 0 \<le> q \<and> q \<le> (n - 1) * 2) ps"
      using acc [OF sp] that by blast
    show "0 \<le> p" if "list_all (\<lambda>q. 0 \<le> q) ps" using sp that by (rule nonneg)
    show "p \<le> 1" if "list_all (\<lambda>q. q \<le> (n - 1) * 2) ps" using sp that by (rule le1)
    show "list_ex (\<lambda>q. (n - 1) * 2 < q) ps" if "1 < p" using sp that by (rule gt1)
    show "sum_played 0 rows' = Inr (sum_list ps')" "p \<le> p'"
      if "map played_games rows' = map Inr ps' \<and> list_all2 (\<le>) ps ps'
              \<and> season_progress (sum_list ps') (int (length rows')) = Inr p'"
      for rows' ps' p'
      using mono [OF sp, of rows' ps' p'] that by blast+
  qed
  show ?thesis
    unfolding n_def [symmetric]
    using s all ret by blast
qed

text \<open>
  The theorem at a table of two rows with 1 and 2 played games: the sum is 3 and the
  progress is \<open>(3 / 2) / 2 = 3 / 4\<close>, between 0 and 1. When the first team has played its
  second game the progress is 1, which is not less.
\<close>

theorem season_progress_monotone_bounded_witness:
  "map played_games [PDict [(''playedGames'', PInt 1)], PDict [(''playedGames'', PInt 2)]]
     = map Inr [1, 2]
   \<and> sum_played 0 [PDict [(''playedGames'', PInt 1)], PDict [(''playedGames'', PInt 2)]] = Inr 3
   \<and> season_progress 3 2 = Inr (3 / 4)
   \<and> map played_games [PDict [(''playedGames'', PInt 2)], PDict [(''playedGames'', PInt 2)]]
     = map Inr [2, 2]
   \<and> sum_played 0 [PDict [(''playedGames'', PInt 2)], PDict [(''playedGames'', PInt 2)]] = Inr 4
   \<and> season_progress 4 2 = Inr 1
   \<and> (3 / 4 :: rat) \<le> 1"
proof -
  let ?rows = "[PDict [(''playedGames'', PInt 1)], PDict [(''playedGames'', PInt 2)]]"
  let ?rows' = "[PDict [(''playedGames'', PInt 2)], PDict [(''playedGames'', PInt 2)]]"
  have h1: "map played_games ?rows = map Inr [1, 2]" by (simp add: played_games_def)
  have h2: "2 \<le> length ?rows" by simp
  have h3: "map played_games ?rows' = map Inr [2, 2]" by (simp add: played_games_def)
  have l: "int (length ?rows) = 2" "int (length ?rows') = 2" "sum_list [1, 2 :: int] = 3"
    "sum_list [2, 2 :: int] = 4"
    by simp_all
  have p: "season_progress 3 2 = Inr (3 / 4)" by (rule season_progress_examples)
  have q: "season_progress 4 2 = Inr 1" by (rule season_progress_examples)
  note T = season_progress_monotone_bounded [OF h1 h2, unfolded l]
  from T have a: "sum_played 0 ?rows = Inr 3" by (rule conjunct1)
  from T have "\<forall>p. season_progress 3 2 = Inr p \<longrightarrow>
      (\<forall>rows' ps' p'.
              map played_games rows' = map Inr ps' \<and> list_all2 (\<le>) [1, 2] ps'
              \<and> season_progress (sum_list ps') (int (length rows')) = Inr p'
              \<longrightarrow> sum_played 0 rows' = Inr (sum_list ps') \<and> p \<le> p')"
    by blast
  with p have "map played_games ?rows' = map Inr [2, 2] \<and> list_all2 (\<le>) [1, 2] [2, 2 :: int]
      \<and> season_progress (sum_list [2, 2]) (int (length ?rows')) = Inr 1
      \<longrightarrow> sum_played 0 ?rows' = Inr (sum_list [2, 2]) \<and> (3 / 4 :: rat) \<le> 1"
    by blast
  moreover have "list_all2 (\<le>) [1, 2] [2, 2 :: int]" by simp
  ultimately have b: "sum_played 0 ?rows' = Inr 4 \<and> (3 / 4 :: rat) \<le> 1"
    using h3 q unfolding l by blast
  with h1 a p h3 q show ?thesis by blast
qed

subsection \<open>Strings and the team resolver\<close>


lemma str_in_empty [simp]: "str_in [] t"
  by (cases t) simp_all




lemma find_key_in: "find_key name ts = Some t \<Longrightarrow> t \<in> set ts"
  by (induction ts) (auto split: if_splits)

lemma find_team_empty:
  assumes "standings \<noteq> []"
  shows "find_team L [] standings = Some (fst (hd standings))"
  using assms by (cases standings) (simp_all add: find_team_def)



subsection \<open>The table built by the fetcher\<close>

text \<open>The table after the rows with keys and values \<open>kes\<close>, from the table \<open>tbl\<close>.\<close>

lemma build_table_fold:
  assumes "build_table L rows tbl = Inr tbl'"
  shows "\<exists>kes. map (row_entry L) rows = map Inr kes
           \<and> tbl' = fold (\<lambda>ke. AList.update (fst ke) (snd ke)) kes tbl"
  using assms
proof (induction rows arbitrary: tbl)
  case Nil
  then show ?case by simp
next
  case (Cons team rest)
  from Cons.prems obtain ke where ke: "row_entry L team = Inr ke"
    and rest: "build_table L rest (AList.update (fst ke) (snd ke) tbl) = Inr tbl'"
    by (auto split: sum.splits)
  from Cons.IH [OF rest] obtain kes where
    kes: "map (row_entry L) rest = map Inr kes"
      "tbl' = fold (\<lambda>ke. AList.update (fst ke) (snd ke)) kes (AList.update (fst ke) (snd ke) tbl)"
    by blast
  have "map (row_entry L) (team # rest) = map Inr (ke # kes)" using ke kes(1) by simp
  moreover have "tbl' = fold (\<lambda>ke. AList.update (fst ke) (snd ke)) (ke # kes) tbl"
    using kes(2) by simp
  ultimately show ?case by blast
qed

lemma fold_update_distinct:
  assumes "distinct (map fst tbl)"
  shows "distinct (map fst (fold (\<lambda>ke. AList.update (fst ke) (snd ke)) kes tbl))"
  using assms by (induction kes arbitrary: tbl) (simp_all add: distinct_update)

lemma fold_update_keys:
  "set (map fst (fold (\<lambda>ke. AList.update (fst ke) (snd ke)) kes tbl))
   = set (map fst tbl) \<union> set (map fst kes)"
proof (induction kes arbitrary: tbl)
  case Nil
  then show ?case by simp
next
  case (Cons ke kes)
  have "fst ` set (AList.update (fst ke) (snd ke) tbl) = {fst ke} \<union> fst ` set tbl"
    by (rule dom_update)
  with Cons.IH [of "AList.update (fst ke) (snd ke) tbl"] show ?case by auto
qed

lemma fold_update_map_of:
  "map_of (fold (\<lambda>ke. AList.update (fst ke) (snd ke)) kes tbl) = map_of tbl ++ map_of (rev kes)"
proof (induction kes arbitrary: tbl)
  case Nil
  then show ?case by simp
next
  case (Cons ke kes)
  show ?case
  proof (rule ext)
    fix a
    show "map_of (fold (\<lambda>ke. AList.update (fst ke) (snd ke)) (ke # kes) tbl) a
          = (map_of tbl ++ map_of (rev (ke # kes))) a"
      using fun_cong [OF Cons.IH [of "AList.update (fst ke) (snd ke) tbl"], of a]
      by (cases ke) (auto simp: update_conv map_add_def split: option.splits)
  qed
qed

lemma update_new_key:
  assumes "k \<notin> fst ` set al"
  shows "AList.update k v al = al @ [(k, v)]"
  using assms by (induction al) auto

lemma fold_update_append:
  assumes "distinct (map fst kes)" and "set (map fst kes) \<inter> set (map fst tbl) = {}"
  shows "fold (\<lambda>ke. AList.update (fst ke) (snd ke)) kes tbl = tbl @ kes"
  using assms
proof (induction kes arbitrary: tbl)
  case Nil
  then show ?case by simp
next
  case (Cons ke kes)
  have new: "fst ke \<notin> fst ` set tbl" using Cons.prems(2) by auto
  have upd: "AList.update (fst ke) (snd ke) tbl = tbl @ [ke]"
    using update_new_key [OF new, of "snd ke"] by simp
  have "distinct (map fst kes)" using Cons.prems(1) by simp
  moreover have "set (map fst kes) \<inter> set (map fst (tbl @ [ke])) = {}"
    using Cons.prems by auto
  ultimately have "fold (\<lambda>ke. AList.update (fst ke) (snd ke)) kes (tbl @ [ke]) = (tbl @ [ke]) @ kes"
    by (rule Cons.IH)
  then show ?case by (simp add: upd)
qed

lemma build_table_result:
  assumes "build_table L rows [] = Inr tbl"
  obtains kes where "map (row_entry L) rows = map Inr kes"
    and "distinct (map fst tbl)"
    and "set (map fst tbl) = set (map fst kes)"
    and "map_of tbl = map_of (rev kes)"
    and "distinct (map fst kes) \<longrightarrow> tbl = kes"
    and "length tbl = length rows \<longleftrightarrow> distinct (map fst kes)"
proof -
  from build_table_fold [OF assms] obtain kes where
    kes: "map (row_entry L) rows = map Inr kes"
      "tbl = fold (\<lambda>ke. AList.update (fst ke) (snd ke)) kes []"
    by blast
  have d: "distinct (map fst tbl)" unfolding kes(2) by (rule fold_update_distinct) simp
  have s: "set (map fst tbl) = set (map fst kes)"
    unfolding kes(2) using fold_update_keys [of kes "[]"] by simp
  have m: "map_of tbl = map_of (rev kes)" unfolding kes(2) by (simp add: fold_update_map_of)
  have a: "distinct (map fst kes) \<longrightarrow> tbl = kes"
    unfolding kes(2) using fold_update_append [of kes "[]"] by simp
  have len: "length kes = length rows" using kes(1) by (metis length_map)
  have "length tbl = card (set (map fst kes))"
    using distinct_card [OF d] s by simp
  then have l: "length tbl = length rows \<longleftrightarrow> distinct (map fst kes)"
    using card_distinct [of "map fst kes"] distinct_card [of "map fst kes"] len by auto
  from kes(1) d s m a l show ?thesis by (rule that)
qed

lemma row_entry_fields:
  assumes "row_entry L team = Inr ke"
  shows "\<exists>t nm. getitem_str team ''team'' = Inr t \<and> getitem_str t ''name'' = Inr (PStr nm)
          \<and> fst ke = lower L nm
          \<and> getitem_str team ''position'' = Inr (position (snd ke))
          \<and> getitem_str team ''playedGames'' = Inr (played (snd ke))
          \<and> getitem_str team ''points'' = Inr (points (snd ke))"
proof -
  from assms obtain t nm k pos pl pts where
    f: "getitem_str team ''team'' = Inr t" "getitem_str t ''name'' = Inr nm"
      "lower_method L nm = Inr k" "getitem_str team ''position'' = Inr pos"
      "getitem_str team ''playedGames'' = Inr pl" "getitem_str team ''points'' = Inr pts"
      "ke = (k, \<lparr>position = pos, played = pl, points = pts\<rparr>)"
    unfolding row_entry_def by (auto split: sum.splits)
  from f(3) obtain s where "nm = PStr s" "k = lower L s" by (cases nm) auto
  with f show ?thesis by simp
qed

subsection \<open>A successful fetch\<close>

lemma get_standings_parts:
  assumes "get_standings L http_get competition_code = Inr (tbl, total_teams, progress)"
  obtains status raw data standings rows played_sum where
    "http_get (standings_url competition_code) = Response True status raw (Some data)"
    and "standings_rows data = Inr standings"
    and "iter_items standings = Inr rows"
    and "total_teams = int (length rows)"
    and "sum_played 0 rows = Inr played_sum"
    and "season_progress played_sum total_teams = Inr progress"
    and "build_table L rows [] = Inr tbl"
  using assms unfolding get_standings_def
  by (auto simp: Let_def split: upstream.splits if_splits option.splits sum.splits)

lemma season_progress_two_rows:
  assumes "season_progress s n = Inr p" and "0 \<le> n"
  shows "2 \<le> n"
proof (rule ccontr)
  assume "\<not> 2 \<le> n"
  with assms(2) consider "n = 0" | "n = 1" by linarith
  then show False
  proof cases
    case 1
    with assms(1) show False by (simp add: season_progress_def int_truediv_def)
  next
    case 2
    with assms(1) show False
      by (simp add: season_progress_def int_truediv_def float_truediv_int_def int_to_float_def
          split: if_splits)
  qed
qed

lemma played_games_dict:
  assumes "played_games team = Inr i"
  obtains kvs where "team = PDict kvs"
  using assms by (cases team) (auto simp: played_games_def)

lemma iter_items_list:
  assumes "iter_items standings = Inr (team # rest)" and "played_games team = Inr i"
  shows "standings = PList (team # rest)"
proof -
  from assms(2) obtain kvs where "team = PDict kvs" by (rule played_games_dict)
  with assms(1) show ?thesis by (cases standings) auto
qed

lemma get_standings_rows:
  assumes "get_standings L http_get competition_code = Inr (tbl, total_teams, progress)"
  obtains status raw data rows played_sum where
    "http_get (standings_url competition_code) = Response True status raw (Some data)"
    and "standings_rows data = Inr (PList rows)"
    and "total_teams = int (length rows)"
    and "2 \<le> total_teams"
    and "sum_played 0 rows = Inr played_sum"
    and "season_progress played_sum total_teams = Inr progress"
    and "build_table L rows [] = Inr tbl"
proof -
  from assms obtain status raw data standings rows played_sum where
    p: "http_get (standings_url competition_code) = Response True status raw (Some data)"
      "standings_rows data = Inr standings"
      "iter_items standings = Inr rows"
      "total_teams = int (length rows)"
      "sum_played 0 rows = Inr played_sum"
      "season_progress played_sum total_teams = Inr progress"
      "build_table L rows [] = Inr tbl"
    by (rule get_standings_parts)
  have two: "2 \<le> total_teams" using season_progress_two_rows [OF p(6)] p(4) by simp
  then obtain team rest where rows: "rows = team # rest" using p(4) by (cases rows) auto
  from p(5) obtain i where "played_games team = Inr i"
    unfolding rows by (auto split: sum.splits)
  with p(3) have "standings = PList rows" unfolding rows by (rule iter_items_list)
  with p two show ?thesis by (intro that) simp_all
qed

lemma get_standings_nonempty:
  assumes "get_standings L http_get competition_code = Inr (tbl, total_teams, progress)"
  shows "tbl \<noteq> []"
proof -
  from assms obtain rows where r: "2 \<le> int (length rows)" "build_table L rows [] = Inr tbl"
    by (auto elim: get_standings_rows)
  from r(2) obtain kes where k: "map (row_entry L) rows = map Inr kes"
    "set (map fst tbl) = set (map fst kes)"
    by (auto elim: build_table_result)
  have "length kes = length rows" using k(1) by (metis length_map)
  with r(1) have "kes \<noteq> []" by auto
  with k(2) show ?thesis by auto
qed

text \<open>After a successful fetch the classifier cannot overflow.\<close>

lemma int_to_float_bound:
  assumes "int_to_float m = Inr d" and "0 \<le> n" and "n \<le> m"
  shows "0 \<le> fl (of_int n)" and "fl (of_int n) < 2 ^ 1024"
proof -
  have "(of_int 0 :: rat) \<le> of_int n" using assms(2) by (simp only: of_int_le_iff)
  then show nn: "0 \<le> fl (of_int n)" by (intro fl_nonneg) simp
  have "(of_int n :: rat) \<le> of_int m" using assms(3) by (simp only: of_int_le_iff)
  then have "fl (of_int n) \<le> fl (of_int m)" by (rule fl_mono)
  moreover have "\<bar>fl (of_int m)\<bar> < 2 ^ 1024"
    using assms(1) by (simp add: int_to_float_def split: if_splits)
  ultimately show "fl (of_int n) < 2 ^ 1024" by linarith
qed

lemma season_progress_divisor:
  assumes "season_progress s n = Inr p"
  obtains d where "int_to_float ((n - 1) * 2) = Inr d"
  using assms
  by (auto simp: season_progress_def float_truediv_int_def split: sum.splits)

lemma classifier_defined:
  assumes "season_progress s n = Inr p" and "2 \<le> n"
  obtains z h where "zone n = Inr z" and "int_truediv n 2 = Inr h"
proof -
  from assms(1) obtain d where d: "int_to_float ((n - 1) * 2) = Inr d"
    by (rule season_progress_divisor)
  have le: "0 \<le> n" "n \<le> (n - 1) * 2" using assms(2) by simp_all
  note b = int_to_float_bound [OF d le]
  have "\<not> 2 ^ 1024 \<le> \<bar>fl (of_int n)\<bar>" using b by simp
  then have conv: "int_to_float n = Inr (fl (of_int n))" by (simp add: int_to_float_def)
  have z: "zone n = Inr (max 3 (round_half_even (fl (fl (of_int n) * float_0_2))))"
    by (simp add: zone_def int_mul_float_def conv)
  have "(0 :: rat) \<le> of_int n / of_int 2" using le(1) by simp
  then have h0: "0 \<le> fl (of_int n / of_int 2)" by (rule fl_nonneg)
  have "(of_int n :: rat) / of_int 2 \<le> of_int n" using le(1) by simp
  then have "fl (of_int n / of_int 2) \<le> fl (of_int n)" by (rule fl_mono)
  with b(2) h0 have "\<not> 2 ^ 1024 \<le> \<bar>fl (of_int n / of_int 2)\<bar>" by simp
  then have h: "int_truediv n 2 = Inr (fl (of_int n / of_int 2))"
    by (simp add: int_truediv_def)
  from z h show ?thesis by (rule that)
qed

lemma match_importance_returns:
  assumes "zone n = Inr z" and "int_truediv n 2 = Inr h"
    and "as_int pos1 = Inr i1" and "as_int pos2 = Inr i2"
  shows "\<exists>imp. match_importance pos1 pos2 n progress = Inr imp"
  using assms by (simp add: match_importance_def Let_def)

text \<open>
  Claim C7, as amended. For every lowering \<open>L\<close>, so for \<^verbatim>\<open>str.lower()\<close>: when
  \<^verbatim>\<open>get_standings\<close> returns, the body it parsed has a list of rows at
  \<^verbatim>\<open>data["standings"][0]["table"]\<close> and \<open>total_teams\<close> is the number of these rows. Every
  row gives a key, the lowering \<open>lower L nm\<close> of its team name \<open>nm\<close>, and a value made of its
  position, played games and points. The keys of the table are these keys, each once;
  a key maps to the value of the last row that has it. The number of entries of the
  table is \<open>total_teams\<close> exactly when the keys of the rows are distinct, and then the
  table is the list of the keys and values of the rows, in their order.
\<close>

theorem get_standings_table:
  assumes "get_standings L http_get competition_code = Inr (tbl, total_teams, progress)"
  shows "\<exists>status raw data rows kes.
      http_get (standings_url competition_code) = Response True status raw (Some data)
    \<and> standings_rows data = Inr (PList rows)
    \<and> total_teams = int (length rows)
    \<and> map (row_entry L) rows = map Inr kes
    \<and> (\<forall>i < length rows. \<exists>t nm.
          getitem_str (rows ! i) ''team'' = Inr t
        \<and> getitem_str t ''name'' = Inr (PStr nm)
        \<and> fst (kes ! i) = lower L nm
        \<and> getitem_str (rows ! i) ''position'' = Inr (position (snd (kes ! i)))
        \<and> getitem_str (rows ! i) ''playedGames'' = Inr (played (snd (kes ! i)))
        \<and> getitem_str (rows ! i) ''points'' = Inr (points (snd (kes ! i))))
    \<and> distinct (map fst tbl)
    \<and> set (map fst tbl) = set (map fst kes)
    \<and> map_of tbl = map_of (rev kes)
    \<and> (distinct (map fst kes) \<longrightarrow> tbl = kes)
    \<and> (int (length tbl) = total_teams \<longleftrightarrow> distinct (map fst kes))"
proof -
  from assms obtain status raw data rows where
    p: "http_get (standings_url competition_code) = Response True status raw (Some data)"
      "standings_rows data = Inr (PList rows)"
      "total_teams = int (length rows)"
      "build_table L rows [] = Inr tbl"
    by (auto elim: get_standings_rows)
  from p(4) obtain kes where
    k: "map (row_entry L) rows = map Inr kes"
      "distinct (map fst tbl)"
      "set (map fst tbl) = set (map fst kes)"
      "map_of tbl = map_of (rev kes)"
      "distinct (map fst kes) \<longrightarrow> tbl = kes"
      "length tbl = length rows \<longleftrightarrow> distinct (map fst kes)"
    by (rule build_table_result)
  have fields: "\<exists>t nm.
          getitem_str (rows ! i) ''team'' = Inr t
        \<and> getitem_str t ''name'' = Inr (PStr nm)
        \<and> fst (kes ! i) = lower L nm
        \<and> getitem_str (rows ! i) ''position'' = Inr (position (snd (kes ! i)))
        \<and> getitem_str (rows ! i) ''playedGames'' = Inr (played (snd (kes ! i)))
        \<and> getitem_str (rows ! i) ''points'' = Inr (points (snd (kes ! i)))"
    if "i < length rows" for i
  proof -
    have len: "length kes = length rows" using k(1) by (metis length_map)
    have "row_entry L (rows ! i) = map (row_entry L) rows ! i" using that by simp
    also have "\<dots> = map Inr kes ! i" by (simp only: k(1))
    also have "\<dots> = Inr (kes ! i)" using that len by simp
    finally show ?thesis by (rule row_entry_fields)
  qed
  have "int (length tbl) = total_teams \<longleftrightarrow> distinct (map fst kes)"
    using k(6) p(3) by simp
  with p(1,2,3) k(1,2,3,4,5) fields show ?thesis by blast
qed

text \<open>
  Two rows whose names differ in case only: \<open>total_teams\<close> is 2, the table has the one
  entry \<^verbatim>\<open>arsenal\<close>, with the values of the second row. The names are ASCII, where every
  lowering is \<^verbatim>\<open>str.lower()\<close>.
\<close>

theorem total_teams_counts_rows_counterexample:
  "get_standings ascii_lowering
     (answering (table_body [team_row ''Arsenal'' 1 3 9, team_row ''ARSENAL'' 2 3 4])) ''PL''
   = Inr ([(''arsenal'', \<lparr>position = PInt 2, played = PInt 3, points = PInt 4\<rparr>)], 2, 3 / 2)
   \<and> length [(''arsenal'', \<lparr>position = PInt 2, played = PInt 3, points = PInt 4\<rparr>)] \<noteq> 2"
  by (simp add: get_standings_answering played_games_team_row row_entry_team_row
      season_progress_6_2 lower_examples)

text \<open>The theorem at a table of two teams with different names.\<close>

theorem get_standings_table_witness:
  "get_standings ascii_lowering
     (answering (table_body [team_row ''Arsenal'' 1 3 9, team_row ''Chelsea'' 2 3 4])) ''PL''
   = Inr ([(''arsenal'', \<lparr>position = PInt 1, played = PInt 3, points = PInt 9\<rparr>),
           (''chelsea'', \<lparr>position = PInt 2, played = PInt 3, points = PInt 4\<rparr>)], 2, 3 / 2)
   \<and> (\<exists>rows. standings_rows (table_body [team_row ''Arsenal'' 1 3 9, team_row ''Chelsea'' 2 3 4])
                = Inr (PList rows) \<and> (2 :: int) = int (length rows))"
proof -
  let ?data = "table_body [team_row ''Arsenal'' 1 3 9, team_row ''Chelsea'' 2 3 4]"
  have h: "get_standings ascii_lowering (answering ?data) ''PL''
   = Inr ([(''arsenal'', \<lparr>position = PInt 1, played = PInt 3, points = PInt 9\<rparr>),
           (''chelsea'', \<lparr>position = PInt 2, played = PInt 3, points = PInt 4\<rparr>)], 2, 3 / 2)"
    by (rule get_standings_two_teams)
  from get_standings_table [OF h] obtain status raw data rows where
    "answering ?data (standings_url ''PL'') = Response True status raw (Some data)"
    "standings_rows data = Inr (PList rows)" "(2 :: int) = int (length rows)"
    by blast
  then have "standings_rows ?data = Inr (PList rows) \<and> (2 :: int) = int (length rows)"
    by (simp add: answering_def)
  with h show ?thesis by blast
qed

subsection \<open>The request handler\<close>

lemma find_team_key:
  assumes "find_team L team standings = Some k"
  obtains e where "map_of standings k = Some e"
proof -
  from assms have "k \<in> set (map fst standings)"
    unfolding find_team_def by (rule find_key_in)
  then have "k \<in> fst ` set standings" by simp
  then obtain e where "map_of standings k = Some e"
    by (metis map_of_eq_None_iff not_Some_eq)
  then show ?thesis by (rule that)
qed

lemma get_match_info_error:
  assumes "get_standings L http_get lg = Inl e"
  shows "get_match_info L http_get lg team1 team2 = Inr (JSONResponse 400 (ErrorContent e))"
  using assms by (simp add: get_match_info_def)

lemma get_match_info_not_found:
  assumes "get_standings L http_get lg = Inr (tbl, n, p)"
    and "find_team L team1 tbl = None \<or> find_team L team2 tbl = None"
  shows "get_match_info L http_get lg team1 team2
         = Inr (JSONResponse 404
             (NotFoundContent ''One or both teams were not found.'' (map fst tbl)))"
  using assms by (auto simp: get_match_info_def Let_def)

lemma get_match_info_found:
  assumes "get_standings L http_get lg = Inr (tbl, n, p)"
    and "find_team L team1 tbl = Some k1" and "find_team L team2 tbl = Some k2"
    and "k1 \<noteq> []" and "k2 \<noteq> []"
    and "map_of tbl k1 = Some e1" and "map_of tbl k2 = Some e2"
  shows "get_match_info L http_get lg team1 team2 =
     (case match_importance (position e1) (position e2) n p of
        Inl e \<Rightarrow> Inl e
      | Inr imp \<Rightarrow>
          Inr (MatchDict
            \<lparr>league = lg,
             team1_name = k1, team1_position = position e1, team1_points = points e1,
             team2_name = k2, team2_position = position e2, team2_points = points e2,
             importance = imp,
             season_progress_text = format_percent p\<rparr>))"
  using assms by (simp add: get_match_info_def Let_def split: sum.splits)

lemma get_match_info_found_status:
  assumes "get_standings L http_get lg = Inr (tbl, n, p)"
    and "find_team L team1 tbl = Some k1" and "find_team L team2 tbl = Some k2"
    and "k1 \<noteq> []" and "k2 \<noteq> []"
  shows "http_status (get_match_info L http_get lg team1 team2) \<noteq> 404"
proof -
  from assms(2) obtain e1 where e1: "map_of tbl k1 = Some e1" by (rule find_team_key)
  from assms(3) obtain e2 where e2: "map_of tbl k2 = Some e2" by (rule find_team_key)
  show ?thesis
    unfolding get_match_info_found [OF assms e1 e2] by (simp split: sum.splits)
qed


text \<open>
  Claim C10, as amended. For every lowering \<open>L\<close>, so for \<^verbatim>\<open>str.lower()\<close>: the empty
  query resolves to the first key of every non-empty table, and the table of a
  successful fetch is not empty. So, when the first key is not the empty string, a
  request with two empty team parameters is not answered with 404, nor is a request with
  one empty team parameter whose other parameter resolves to a non-empty key.
\<close>

theorem empty_query_first_key:
  "(standings \<noteq> [] \<longrightarrow> find_team L [] standings = Some (fst (hd standings)))
   \<and> (get_standings L http_get lg = Inr (standings, n, p) \<longrightarrow> standings \<noteq> [])
   \<and> (get_standings L http_get lg = Inr (standings, n, p) \<and> fst (hd standings) \<noteq> [] \<longrightarrow>
         http_status (get_match_info L http_get lg [] []) \<noteq> 404
       \<and> (\<forall>team k. find_team L team standings = Some k \<and> k \<noteq> [] \<longrightarrow>
             http_status (get_match_info L http_get lg [] team) \<noteq> 404
           \<and> http_status (get_match_info L http_get lg team []) \<noteq> 404))"
proof (intro conjI impI allI)
  assume "standings \<noteq> []"
  then show "find_team L [] standings = Some (fst (hd standings))" by (rule find_team_empty)
next
  assume "get_standings L http_get lg = Inr (standings, n, p)"
  then show "standings \<noteq> []" by (rule get_standings_nonempty)
next
  assume a: "get_standings L http_get lg = Inr (standings, n, p) \<and> fst (hd standings) \<noteq> []"
  then have g: "get_standings L http_get lg = Inr (standings, n, p)"
    and k0: "fst (hd standings) \<noteq> []"
    by simp_all
  have e: "find_team L [] standings = Some (fst (hd standings))"
    using get_standings_nonempty [OF g] by (rule find_team_empty)
  show "http_status (get_match_info L http_get lg [] []) \<noteq> 404"
    using g e e k0 k0 by (rule get_match_info_found_status)
  fix team k
  assume "find_team L team standings = Some k \<and> k \<noteq> []"
  then have t: "find_team L team standings = Some k" and k: "k \<noteq> []" by simp_all
  show "http_status (get_match_info L http_get lg [] team) \<noteq> 404"
    using g e t k0 k by (rule get_match_info_found_status)
  show "http_status (get_match_info L http_get lg team []) \<noteq> 404"
    using g t e k k0 by (rule get_match_info_found_status)
qed

text \<open>
  An empty first parameter with a second one that matches no team is answered with 404,
  and so are two empty parameters when the first team of the table has the empty name.
\<close>

theorem empty_query_counterexample:
  "http_status
     (get_match_info ascii_lowering
        (answering (table_body [team_row ''Arsenal'' 1 3 9, team_row ''Chelsea'' 2 3 4]))
        ''PL'' [] ''zzz'') = 404
   \<and> http_status
     (get_match_info ascii_lowering
        (answering (table_body [team_row [] 1 3 9, team_row ''Chelsea'' 2 3 4]))
        ''PL'' [] []) = 404"
  by (simp add: get_match_info_def get_standings_two_teams find_team_two_teams
      get_standings_empty_name find_team_empty_name)

text \<open>
  The theorem at a table of two teams: the empty query finds \<^verbatim>\<open>arsenal\<close>, the first
  key, and the request with two empty parameters is not answered with 404.
\<close>

theorem empty_query_first_key_witness:
  "get_standings ascii_lowering
     (answering (table_body [team_row ''Arsenal'' 1 3 9, team_row ''Chelsea'' 2 3 4])) ''PL''
   = Inr ([(''arsenal'', \<lparr>position = PInt 1, played = PInt 3, points = PInt 9\<rparr>),
           (''chelsea'', \<lparr>position = PInt 2, played = PInt 3, points = PInt 4\<rparr>)], 2, 3 / 2)
   \<and> find_team ascii_lowering []
       [(''arsenal'', \<lparr>position = PInt 1, played = PInt 3, points = PInt 9\<rparr>),
        (''chelsea'', \<lparr>position = PInt 2, played = PInt 3, points = PInt 4\<rparr>)]
     = Some ''arsenal''
   \<and> http_status
       (get_match_info ascii_lowering
          (answering (table_body [team_row ''Arsenal'' 1 3 9, team_row ''Chelsea'' 2 3 4]))
          ''PL'' [] []) \<noteq> 404"
proof -
  let ?api = "answering (table_body [team_row ''Arsenal'' 1 3 9, team_row ''Chelsea'' 2 3 4])"
  let ?tbl = "[(''arsenal'', \<lparr>position = PInt 1, played = PInt 3, points = PInt 9\<rparr>),
           (''chelsea'', \<lparr>position = PInt 2, played = PInt 3, points = PInt 4\<rparr>)]"
  have h: "get_standings ascii_lowering ?api ''PL'' = Inr (?tbl, 2, 3 / 2)"
    by (rule get_standings_two_teams)
  note T = empty_query_first_key [where L = ascii_lowering and standings = ?tbl
      and http_get = ?api and lg = "''PL''" and n = 2 and p = "3 / 2"]
  from T have a: "find_team ascii_lowering [] ?tbl = Some ''arsenal''" by simp
  from T h have b: "http_status (get_match_info ascii_lowering ?api ''PL'' [] []) \<noteq> 404" by simp
  from h a b show ?thesis by blast
qed

lemma zone_2: "zone 2 = Inr 3"
  by code_simp

lemma stage_examples: "season_stage (3 / 2) = ''end of the season''"
  by (simp add: season_stage_def float_0_33_value float_0_66_value)

lemma format_percent_examples: "format_percent (3 / 2) = ''150.0%''"
  by code_simp

lemma get_standings_failures:
  "(http_get (standings_url lg) = RequestFailed \<longrightarrow>
      get_standings L http_get lg = Inl RequestException)
   \<and> (http_get (standings_url lg) = Response False status raw parsed \<longrightarrow>
      get_standings L http_get lg
      = Inl (ApiError (''API request failed: '' @ show_int status @ '' - '' @ raw)))
   \<and> (http_get (standings_url lg) = Response True status raw None \<longrightarrow>
      get_standings L http_get lg = Inl JSONDecodeError)
   \<and> (http_get (standings_url lg) = Response True status raw (Some data)
       \<and> standings_rows data = Inl e \<longrightarrow>
      get_standings L http_get lg = Inl e)"
  by (simp add: get_standings_def)

lemma sum_played_rows:
  assumes "sum_played acc rows = Inr s"
  shows "\<forall>row \<in> set rows. \<exists>i. played_games row = Inr i"
  using assms by (induction rows arbitrary: acc) (auto split: sum.splits)

lemma build_table_rows:
  assumes "build_table L rows tbl = Inr tbl'"
  shows "\<forall>row \<in> set rows. \<exists>ke. row_entry L row = Inr ke"
  using assms by (induction rows arbitrary: tbl) (auto split: sum.splits)

lemma get_standings_shape:
  assumes "get_standings L http_get lg = Inr (tbl, n, p)"
  shows "\<exists>status raw data rows.
      http_get (standings_url lg) = Response True status raw (Some data)
    \<and> standings_rows data = Inr (PList rows)
    \<and> 2 \<le> length rows
    \<and> (\<forall>row \<in> set rows. \<exists>i ke. played_games row = Inr i \<and> row_entry L row = Inr ke)"
proof -
  from assms obtain status raw data rows s where
    r: "http_get (standings_url lg) = Response True status raw (Some data)"
      "standings_rows data = Inr (PList rows)"
      "n = int (length rows)" "2 \<le> n"
      "sum_played 0 rows = Inr s" "build_table L rows [] = Inr tbl"
    by (auto elim: get_standings_rows)
  have "2 \<le> length rows" using r(3,4) by simp
  moreover have "\<forall>row \<in> set rows. \<exists>i ke. played_games row = Inr i \<and> row_entry L row = Inr ke"
    using sum_played_rows [OF r(5)] build_table_rows [OF r(6)] by blast
  ultimately show ?thesis using r(1,2) by blast
qed

lemma get_match_info_ok:
  assumes g: "get_standings L http_get lg = Inr (tbl, n, p)"
    and t1: "find_team L team1 tbl = Some k1" and t2: "find_team L team2 tbl = Some k2"
    and k1: "k1 \<noteq> []" and k2: "k2 \<noteq> []"
  shows "\<exists>e1 e2. map_of tbl k1 = Some e1 \<and> map_of tbl k2 = Some e2
    \<and> (\<forall>i1 i2. as_int (position e1) = Inr i1 \<and> as_int (position e2) = Inr i2 \<longrightarrow>
         (\<exists>imp. match_importance (position e1) (position e2) n p = Inr imp
          \<and> get_match_info L http_get lg team1 team2
            = Inr (MatchDict
                \<lparr>league = lg,
                 team1_name = k1, team1_position = position e1, team1_points = points e1,
                 team2_name = k2, team2_position = position e2, team2_points = points e2,
                 importance = imp,
                 season_progress_text = format_percent p\<rparr>)
          \<and> http_status (get_match_info L http_get lg team1 team2) = 200))"
proof -
  from t1 obtain e1 where e1: "map_of tbl k1 = Some e1" by (rule find_team_key)
  from t2 obtain e2 where e2: "map_of tbl k2 = Some e2" by (rule find_team_key)
  note found = get_match_info_found [OF g t1 t2 k1 k2 e1 e2]
  from g obtain s where sp: "season_progress s n = Inr p" and two: "2 \<le> n"
    by (auto elim: get_standings_rows)
  from sp two obtain z h where zh: "zone n = Inr z" "int_truediv n 2 = Inr h"
    by (rule classifier_defined)
  have "\<exists>imp. match_importance (position e1) (position e2) n p = Inr imp
          \<and> get_match_info L http_get lg team1 team2
            = Inr (MatchDict
                \<lparr>league = lg,
                 team1_name = k1, team1_position = position e1, team1_points = points e1,
                 team2_name = k2, team2_position = position e2, team2_points = points e2,
                 importance = imp,
                 season_progress_text = format_percent p\<rparr>)
          \<and> http_status (get_match_info L http_get lg team1 team2) = 200"
    if "as_int (position e1) = Inr i1" "as_int (position e2) = Inr i2" for i1 i2
  proof -
    from match_importance_returns [OF zh that] obtain imp where
      "match_importance (position e1) (position e2) n p = Inr imp" by blast
    then show ?thesis using found by simp
  qed
  with e1 e2 show ?thesis by blast
qed

text \<open>
  The answers of the handler, for every lowering. A failure of the request, an error
  status, a body that is not JSON and a body without \<^verbatim>\<open>data["standings"][0]["table"]\<close>
  each make \<^verbatim>\<open>get_standings\<close> raise; it returns only for a body with a list of at least
  two rows there, each with played games that are a number, a team name that is a string,
  a position and points. Whenever \<^verbatim>\<open>get_standings\<close> raises, the handler answers 400 with
  the text of the exception and nothing else. When the fetch succeeds and one of the two
  queries finds no key, the handler answers 404 with its message and the list of all keys
  of the table. When both queries find non-empty keys and the positions of the two teams
  are numbers, the handler returns the match result with the two keys, their positions
  and points, the label of the classifier and the formatted progress, which is sent with
  status 200.
\<close>

lemma get_match_info_cases:
  "(http_get (standings_url lg) = RequestFailed \<longrightarrow>
      get_standings L http_get lg = Inl RequestException)
   \<and> (http_get (standings_url lg) = Response False status raw parsed \<longrightarrow>
      get_standings L http_get lg
      = Inl (ApiError (''API request failed: '' @ show_int status @ '' - '' @ raw)))
   \<and> (http_get (standings_url lg) = Response True status raw None \<longrightarrow>
      get_standings L http_get lg = Inl JSONDecodeError)
   \<and> (http_get (standings_url lg) = Response True status raw (Some data)
       \<and> standings_rows data = Inl e \<longrightarrow>
      get_standings L http_get lg = Inl e)
   \<and> (get_standings L http_get lg = Inr (tbl, n, p) \<longrightarrow>
      (\<exists>status raw data rows.
          http_get (standings_url lg) = Response True status raw (Some data)
        \<and> standings_rows data = Inr (PList rows)
        \<and> 2 \<le> length rows
        \<and> (\<forall>row \<in> set rows. \<exists>i ke. played_games row = Inr i \<and> row_entry L row = Inr ke)))
   \<and> (get_standings L http_get lg = Inl e \<longrightarrow>
      get_match_info L http_get lg team1 team2 = Inr (JSONResponse 400 (ErrorContent e))
      \<and> http_status (get_match_info L http_get lg team1 team2) = 400)
   \<and> (get_standings L http_get lg = Inr (tbl, n, p)
       \<and> (find_team L team1 tbl = None \<or> find_team L team2 tbl = None) \<longrightarrow>
      get_match_info L http_get lg team1 team2
      = Inr (JSONResponse 404
          (NotFoundContent ''One or both teams were not found.'' (map fst tbl)))
      \<and> http_status (get_match_info L http_get lg team1 team2) = 404)
   \<and> (get_standings L http_get lg = Inr (tbl, n, p)
       \<and> find_team L team1 tbl = Some k1 \<and> find_team L team2 tbl = Some k2
       \<and> k1 \<noteq> [] \<and> k2 \<noteq> [] \<longrightarrow>
      (\<exists>e1 e2. map_of tbl k1 = Some e1 \<and> map_of tbl k2 = Some e2
        \<and> (\<forall>i1 i2. as_int (position e1) = Inr i1 \<and> as_int (position e2) = Inr i2 \<longrightarrow>
             (\<exists>imp. match_importance (position e1) (position e2) n p = Inr imp
              \<and> get_match_info L http_get lg team1 team2
                = Inr (MatchDict
                    \<lparr>league = lg,
                     team1_name = k1, team1_position = position e1, team1_points = points e1,
                     team2_name = k2, team2_position = position e2, team2_points = points e2,
                     importance = imp,
                     season_progress_text = format_percent p\<rparr>)
              \<and> http_status (get_match_info L http_get lg team1 team2) = 200))))"
proof -
  note F = get_standings_failures [of http_get lg L status raw parsed data e]
  have S: "get_standings L http_get lg = Inr (tbl, n, p) \<longrightarrow>
      (\<exists>status raw data rows.
          http_get (standings_url lg) = Response True status raw (Some data)
        \<and> standings_rows data = Inr (PList rows)
        \<and> 2 \<le> length rows
        \<and> (\<forall>row \<in> set rows. \<exists>i ke. played_games row = Inr i \<and> row_entry L row = Inr ke))"
    using get_standings_shape [of L http_get lg tbl n p] by (intro impI)
  have E: "get_standings L http_get lg = Inl e \<longrightarrow>
      get_match_info L http_get lg team1 team2 = Inr (JSONResponse 400 (ErrorContent e))
      \<and> http_status (get_match_info L http_get lg team1 team2) = 400"
    by (simp add: get_match_info_error)
  have N: "get_standings L http_get lg = Inr (tbl, n, p)
       \<and> (find_team L team1 tbl = None \<or> find_team L team2 tbl = None) \<longrightarrow>
      get_match_info L http_get lg team1 team2
      = Inr (JSONResponse 404
          (NotFoundContent ''One or both teams were not found.'' (map fst tbl)))
      \<and> http_status (get_match_info L http_get lg team1 team2) = 404"
    using get_match_info_not_found [of L http_get lg tbl n p team1 team2] by auto
  have K: "get_standings L http_get lg = Inr (tbl, n, p)
       \<and> find_team L team1 tbl = Some k1 \<and> find_team L team2 tbl = Some k2
       \<and> k1 \<noteq> [] \<and> k2 \<noteq> [] \<longrightarrow>
      (\<exists>e1 e2. map_of tbl k1 = Some e1 \<and> map_of tbl k2 = Some e2
        \<and> (\<forall>i1 i2. as_int (position e1) = Inr i1 \<and> as_int (position e2) = Inr i2 \<longrightarrow>
             (\<exists>imp. match_importance (position e1) (position e2) n p = Inr imp
              \<and> get_match_info L http_get lg team1 team2
                = Inr (MatchDict
                    \<lparr>league = lg,
                     team1_name = k1, team1_position = position e1, team1_points = points e1,
                     team2_name = k2, team2_position = position e2, team2_points = points e2,
                     importance = imp,
                     season_progress_text = format_percent p\<rparr>)
              \<and> http_status (get_match_info L http_get lg team1 team2) = 200)))"
    using get_match_info_ok [of L http_get lg tbl n p team1 k1 team2 k2] by (intro impI) simp
  from F S E N K show ?thesis by (intro conjI) simp_all
qed

text \<open>
  Three requests: an upstream that answers 403 gives 400 with the message of the
  exception, a query that matches no team gives 404 with the two keys, and two queries
  that match give the match result.
\<close>

lemma get_match_info_examples:
  "get_match_info ascii_lowering (refusing 403 ''Forbidden'') ''PL'' ''Arsenal'' ''Chelsea''
   = Inr (JSONResponse 400 (ErrorContent (ApiError ''API request failed: 403 - Forbidden'')))
   \<and> get_match_info ascii_lowering
       (answering (table_body [team_row ''Arsenal'' 1 3 9, team_row ''Chelsea'' 2 3 4]))
       ''PL'' ''Arsenal'' ''zzz''
     = Inr (JSONResponse 404
         (NotFoundContent ''One or both teams were not found.'' [''arsenal'', ''chelsea'']))
   \<and> get_match_info ascii_lowering
       (answering (table_body [team_row ''Arsenal'' 1 3 9, team_row ''Chelsea'' 2 3 4]))
       ''PL'' ''ARSENAL'' ''chelsea''
     = Inr (MatchDict
         \<lparr>league = ''PL'',
          team1_name = ''arsenal'', team1_position = PInt 1, team1_points = PInt 9,
          team2_name = ''chelsea'', team2_position = PInt 2, team2_points = PInt 4,
          importance = '' Top clash (end of the season)'',
          season_progress_text = ''150.0%''\<rparr>)"
proof -
  let ?api = "answering (table_body [team_row ''Arsenal'' 1 3 9, team_row ''Chelsea'' 2 3 4])"
  let ?e1 = "\<lparr>position = PInt 1, played = PInt 3, points = PInt 9\<rparr>"
  let ?e2 = "\<lparr>position = PInt 2, played = PInt 3, points = PInt 4\<rparr>"
  let ?tbl = "[(''arsenal'', ?e1), (''chelsea'', ?e2)]"
  have r: "refusing 403 ''Forbidden'' (standings_url ''PL'') = Response False 403 ''Forbidden'' None"
    by (simp add: refusing_def)
  have s: "show_int 403 = ''403''" by code_simp
  have a: "get_match_info ascii_lowering (refusing 403 ''Forbidden'') ''PL'' ''Arsenal'' ''Chelsea''
   = Inr (JSONResponse 400 (ErrorContent (ApiError ''API request failed: 403 - Forbidden'')))"
    using get_match_info_cases
      [where L = ascii_lowering and http_get = "refusing 403 ''Forbidden''" and lg = "''PL''" and status = 403
         and raw = "''Forbidden''" and parsed = None
         and e = "ApiError ''API request failed: 403 - Forbidden''"
         and ?team1.0 = "''Arsenal''" and ?team2.0 = "''Chelsea''"]
      r s
    by simp
  have h: "get_standings ascii_lowering ?api ''PL'' = Inr (?tbl, 2, 3 / 2)"
    by (rule get_standings_two_teams)
  have f1': "find_team ascii_lowering ''ARSENAL'' ?tbl = Some ''arsenal''"
    by (rule find_team_two_teams)
  have f2: "find_team ascii_lowering ''chelsea'' ?tbl = Some ''chelsea''"
    by (rule find_team_two_teams)
  have f3: "find_team ascii_lowering ''zzz'' ?tbl = None" by (rule find_team_two_teams)
  have b: "get_match_info ascii_lowering ?api ''PL'' ''Arsenal'' ''zzz''
     = Inr (JSONResponse 404
         (NotFoundContent ''One or both teams were not found.'' [''arsenal'', ''chelsea'']))"
    using get_match_info_cases
      [where L = ascii_lowering and http_get = ?api and lg = "''PL''" and ?team1.0 = "''Arsenal''"
         and ?team2.0 = "''zzz''" and tbl = ?tbl and n = 2 and p = "3 / 2"]
      h f3
    by simp
  have imp: "match_importance (PInt 1) (PInt 2) 2 (3 / 2) = Inr '' Top clash (end of the season)''"
    by (simp add: match_importance_def zone_2 stage_examples)
  have fmt: "format_percent (3 / 2) = ''150.0%''" by (rule format_percent_examples)
  have c: "get_match_info ascii_lowering ?api ''PL'' ''ARSENAL'' ''chelsea''
     = Inr (MatchDict
         \<lparr>league = ''PL'',
          team1_name = ''arsenal'', team1_position = PInt 1, team1_points = PInt 9,
          team2_name = ''chelsea'', team2_position = PInt 2, team2_points = PInt 4,
          importance = '' Top clash (end of the season)'',
          season_progress_text = ''150.0%''\<rparr>)"
    using get_match_info_cases
      [where L = ascii_lowering and http_get = ?api and lg = "''PL''" and ?team1.0 = "''ARSENAL''"
         and ?team2.0 = "''chelsea''" and tbl = ?tbl and n = 2 and p = "3 / 2"
         and ?k1.0 = "''arsenal''" and ?k2.0 = "''chelsea''"]
      h f1' f2 imp fmt
    by auto
  from a b c show ?thesis by blast
qed

text \<open>
  Claim C2. The claim says 400 for a body of unexpected shape and 200 whenever the fetch
  succeeds and both queries resolve to a key. Evaluated at four bodies, for requests
  naming Arsenal and Chelsea:
  \<^item> a row whose \<^verbatim>\<open>playedGames\<close> is \<^verbatim>\<open>null\<close> makes \<^verbatim>\<open>get_standings\<close> raise TypeError, and
    the handler answers 400;
  \<^item> a row without the key \<^verbatim>\<open>position\<close> makes it raise KeyError, and the handler
    answers 400;
  \<^item> a row whose \<^verbatim>\<open>position\<close> is \<^verbatim>\<open>null\<close> passes \<^verbatim>\<open>get_standings\<close>, which copies the
    position without using it; both teams are found, \<^verbatim>\<open>match_importance\<close> raises
    TypeError at its first comparison, outside the \<^verbatim>\<open>try\<close> of the handler, and the
    framework answers 500;
  \<^item> a table whose first team has the empty name: the empty query resolves to that key,
    which \<^verbatim>\<open>not t1\<close> takes for \<^verbatim>\<open>None\<close>, and the handler answers 404.
  The names are ASCII, where every lowering is \<^verbatim>\<open>str.lower()\<close>.
\<close>

theorem get_match_info_null_position:
  "get_match_info ascii_lowering
     (answering (table_body
        [PDict [(''position'', PInt 1), (''team'', PDict [(''name'', PStr ''Arsenal'')]),
                (''playedGames'', PNone), (''points'', PInt 9)],
         team_row ''Chelsea'' 2 3 4]))
     ''PL'' ''arsenal'' ''chelsea''
   = Inr (JSONResponse 400 (ErrorContent TypeError))
   \<and> get_match_info ascii_lowering
     (answering (table_body
        [PDict [(''team'', PDict [(''name'', PStr ''Arsenal'')]),
                (''playedGames'', PInt 3), (''points'', PInt 9)],
         team_row ''Chelsea'' 2 3 4]))
     ''PL'' ''arsenal'' ''chelsea''
   = Inr (JSONResponse 400 (ErrorContent KeyError))
   \<and> get_standings ascii_lowering
     (answering (table_body
        [PDict [(''position'', PNone), (''team'', PDict [(''name'', PStr ''Arsenal'')]),
                (''playedGames'', PInt 3), (''points'', PInt 9)],
         team_row ''Chelsea'' 2 3 4]))
     ''PL''
   = Inr ([(''arsenal'', \<lparr>position = PNone, played = PInt 3, points = PInt 9\<rparr>),
           (''chelsea'', \<lparr>position = PInt 2, played = PInt 3, points = PInt 4\<rparr>)], 2, 3 / 2)
   \<and> find_team ascii_lowering ''arsenal''
       [(''arsenal'', \<lparr>position = PNone, played = PInt 3, points = PInt 9\<rparr>),
        (''chelsea'', \<lparr>position = PInt 2, played = PInt 3, points = PInt 4\<rparr>)]
     = Some ''arsenal''
   \<and> find_team ascii_lowering ''chelsea''
       [(''arsenal'', \<lparr>position = PNone, played = PInt 3, points = PInt 9\<rparr>),
        (''chelsea'', \<lparr>position = PInt 2, played = PInt 3, points = PInt 4\<rparr>)]
     = Some ''chelsea''
   \<and> get_match_info ascii_lowering
     (answering (table_body
        [PDict [(''position'', PNone), (''team'', PDict [(''name'', PStr ''Arsenal'')]),
                (''playedGames'', PInt 3), (''points'', PInt 9)],
         team_row ''Chelsea'' 2 3 4]))
     ''PL'' ''arsenal'' ''chelsea''
   = Inl TypeError
   \<and> http_status (Inl TypeError) = 500
   \<and> get_standings ascii_lowering
     (answering (table_body [team_row [] 1 3 9, team_row ''Chelsea'' 2 3 4])) ''PL''
   = Inr ([([], \<lparr>position = PInt 1, played = PInt 3, points = PInt 9\<rparr>),
           (''chelsea'', \<lparr>position = PInt 2, played = PInt 3, points = PInt 4\<rparr>)], 2, 3 / 2)
   \<and> find_team ascii_lowering []
       [([], \<lparr>position = PInt 1, played = PInt 3, points = PInt 9\<rparr>),
        (''chelsea'', \<lparr>position = PInt 2, played = PInt 3, points = PInt 4\<rparr>)]
     = Some []
   \<and> get_match_info ascii_lowering
       (answering (table_body [team_row [] 1 3 9, team_row ''Chelsea'' 2 3 4])) ''PL'' [] []
     = Inr (JSONResponse 404
         (NotFoundContent ''One or both teams were not found.'' [[], ''chelsea'']))"
proof -
  let ?null_played = "PDict [(''position'', PInt 1),
      (''team'', PDict [(''name'', PStr ''Arsenal'')]),
      (''playedGames'', PNone), (''points'', PInt 9)]"
  let ?no_position = "PDict [(''team'', PDict [(''name'', PStr ''Arsenal'')]),
      (''playedGames'', PInt 3), (''points'', PInt 9)]"
  let ?null_position = "PDict [(''position'', PNone),
      (''team'', PDict [(''name'', PStr ''Arsenal'')]),
      (''playedGames'', PInt 3), (''points'', PInt 9)]"
  let ?chelsea = "team_row ''Chelsea'' 2 3 4"
  let ?tbl = "[(''arsenal'', \<lparr>position = PNone, played = PInt 3, points = PInt 9\<rparr>),
      (''chelsea'', \<lparr>position = PInt 2, played = PInt 3, points = PInt 4\<rparr>)]"
  have p1: "played_games ?null_played = Inl TypeError" by (simp add: played_games_def)
  have g1: "get_standings ascii_lowering (answering (table_body [?null_played, ?chelsea])) ''PL''
    = Inl TypeError"
    by (simp add: get_standings_answering p1)
  have a: "get_match_info ascii_lowering (answering (table_body [?null_played, ?chelsea]))
      ''PL'' ''arsenal'' ''chelsea'' = Inr (JSONResponse 400 (ErrorContent TypeError))"
    using g1 by (rule get_match_info_error)
  have p2: "played_games ?no_position = Inr 3" by (simp add: played_games_def)
  have r2: "row_entry ascii_lowering ?no_position = Inl KeyError"
    by (simp add: row_entry_def)
  have g2: "get_standings ascii_lowering (answering (table_body [?no_position, ?chelsea])) ''PL''
    = Inl KeyError"
    by (simp add: get_standings_answering played_games_team_row season_progress_6_2 p2 r2)
  have b: "get_match_info ascii_lowering (answering (table_body [?no_position, ?chelsea]))
      ''PL'' ''arsenal'' ''chelsea'' = Inr (JSONResponse 400 (ErrorContent KeyError))"
    using g2 by (rule get_match_info_error)
  have p3: "played_games ?null_position = Inr 3" by (simp add: played_games_def)
  have r3: "row_entry ascii_lowering ?null_position
      = Inr (''arsenal'', \<lparr>position = PNone, played = PInt 3, points = PInt 9\<rparr>)"
    by (simp add: row_entry_def lower_examples)
  have g3: "get_standings ascii_lowering (answering (table_body [?null_position, ?chelsea])) ''PL''
    = Inr (?tbl, 2, 3 / 2)"
    by (simp add: get_standings_answering played_games_team_row row_entry_team_row
        season_progress_6_2 lower_examples p3 r3)
  have f: "find_team ascii_lowering ''arsenal'' ?tbl = Some ''arsenal''"
    "find_team ascii_lowering ''chelsea'' ?tbl = Some ''chelsea''"
    by (simp_all add: find_team_def lower_examples)
  have m: "match_importance PNone (PInt 2) 2 (3 / 2) = Inl TypeError"
    by (simp add: match_importance_def zone_2)
  have c: "get_match_info ascii_lowering (answering (table_body [?null_position, ?chelsea]))
      ''PL'' ''arsenal'' ''chelsea'' = Inl TypeError"
    by (simp add: get_match_info_def g3 f m)
  have d: "get_match_info ascii_lowering
       (answering (table_body [team_row [] 1 3 9, team_row ''Chelsea'' 2 3 4])) ''PL'' [] []
     = Inr (JSONResponse 404
         (NotFoundContent ''One or both teams were not found.'' [[], ''chelsea'']))"
    by (simp add: get_match_info_def get_standings_empty_name find_team_empty_name)
  have s: "http_status (Inl TypeError) = 500" by simp
  from a b g3 f c s d get_standings_empty_name [of ascii_lowering "''PL''"]
    find_team_empty_name [of ascii_lowering]
  show ?thesis by (intro conjI)
qed

lemma season_progress_one_row:
  "season_progress s 1 = Inl ZeroDivisionError \<or> season_progress s 1 = Inl OverflowError"
  by (simp add: season_progress_def int_truediv_def float_truediv_int_def int_to_float_def)

lemma season_progress_one_row_small:
  assumes "\<bar>s\<bar> < 2 ^ 1023"
  shows "season_progress s 1 = Inl ZeroDivisionError"
proof -
  have "(of_int \<bar>s\<bar> :: rat) < of_int (2 ^ 1023)" using assms by (simp only: of_int_less_iff)
  then have "\<bar>of_int s :: rat\<bar> \<le> 2 powi 1023" by simp
  then have "\<bar>fl (of_int s)\<bar> \<le> 2 powi 1023" by (rule fl_abs_less) simp
  then have "\<not> 2 ^ 1024 \<le> \<bar>fl (of_int s)\<bar>" by simp
  then show ?thesis
    by (simp add: season_progress_def int_truediv_def float_truediv_int_def int_to_float_def)
qed

text \<open>
  Claim C8. For every lowering \<open>L\<close>: when the upstream table has exactly one row,
  \<^verbatim>\<open>get_standings\<close> raises and the handler answers 400 with the text of the exception:
  nothing is propagated. When
  the played games of the row are an integer (below \<open>2 ^ 1023\<close> in absolute value, so
  that it has a float), the exception is the ZeroDivisionError of the division by
  \<open>(total_teams - 1) * 2 = 0\<close>.
\<close>

theorem single_row_error_response:
  assumes "http_get (standings_url lg) = Response True status raw (Some data)"
    and "standings_rows data = Inr standings"
    and "iter_items standings = Inr [team]"
  shows "\<exists>e. get_standings L http_get lg = Inl e
    \<and> get_match_info L http_get lg team1 team2 = Inr (JSONResponse 400 (ErrorContent e))
    \<and> http_status (get_match_info L http_get lg team1 team2) = 400
    \<and> (\<forall>s. played_games team = Inr s \<and> \<bar>s\<bar> < 2 ^ 1023 \<longrightarrow> e = ZeroDivisionError)"
proof (cases "played_games team")
  case (Inl e)
  then have "get_standings L http_get lg = Inl e"
    using assms by (simp add: get_standings_def)
  then show ?thesis using Inl by (simp add: get_match_info_error)
next
  case (Inr s)
  have g: "get_standings L http_get lg = (case season_progress s 1 of Inl e \<Rightarrow> Inl e | Inr p \<Rightarrow>
     (case build_table L [team] [] of Inl e \<Rightarrow> Inl e | Inr tbl \<Rightarrow> Inr (tbl, 1, p)))"
    using assms Inr by (simp add: get_standings_def)
  from season_progress_one_row [of s] obtain e where e: "season_progress s 1 = Inl e" by blast
  then have ge: "get_standings L http_get lg = Inl e" by (simp add: g)
  have "e = ZeroDivisionError" if "\<bar>s\<bar> < 2 ^ 1023"
    using season_progress_one_row_small [OF that] e by simp
  then show ?thesis using ge Inr by (simp add: get_match_info_error)
qed

text \<open>The theorem at a table whose only row is Arsenal with three played games.\<close>

theorem single_row_error_response_witness:
  "get_match_info ascii_lowering (answering (table_body [team_row ''Arsenal'' 1 3 9]))
     ''PL'' ''Arsenal'' ''Arsenal''
   = Inr (JSONResponse 400 (ErrorContent ZeroDivisionError))"
proof -
  let ?rows = "[team_row ''Arsenal'' 1 3 9]"
  have a: "answering (table_body ?rows) (standings_url ''PL'')
           = Response True 200 [] (Some (table_body ?rows))"
    by (simp add: answering_def)
  have b: "standings_rows (table_body ?rows) = Inr (PList ?rows)"
    by (simp add: standings_rows_def table_body_def)
  have c: "iter_items (PList ?rows) = Inr ?rows" by simp
  have d: "played_games (team_row ''Arsenal'' 1 3 9) = Inr 3"
    by (simp add: played_games_def team_row_def)
  from single_row_error_response
    [where L = ascii_lowering and http_get = "answering (table_body ?rows)" and lg = "''PL''"
       and status = 200 and raw = "[]" and data = "table_body ?rows"
       and standings = "PList ?rows" and team = "team_row ''Arsenal'' 1 3 9"
       and ?team1.0 = "''Arsenal''" and ?team2.0 = "''Arsenal''", OF a b c] d
  show ?thesis by auto
qed

end
